theory Spec2Isabelle
  imports Main "HOL-Library.AList"
begin

section \<open>Configuration trees\<close>

text \<open>
  Go's \<^verbatim>\<open>interface{}\<close> values that occur in a plan: the resolver's type switch
  distinguishes a string, a \<^verbatim>\<open>map[string]interface{}\<close> and a
  \<^verbatim>\<open>[]interface{}\<close>; every other value (numbers, booleans, nil) takes the default
  branch. A Go map is an association list here; where the code ranges over a map, the
  model ranges over the list, so the list order stands for the iteration order that Go
  leaves open. Strings are byte strings, as in Go.
\<close>

datatype val =
    VString string
  | VInt int
  | VBool bool
  | VNil
  | VSlice "val list"
  | VMap "(string \<times> val) list"

type_synonym config = "(string \<times> val) list"

section \<open>internal/models\<close>

text \<open>
  The structs of the plan and of the results, with the fields the engine reads or
  writes. Field names carry the struct's name as a prefix, since HOL has one name
  space for all record fields. The time stamps and durations of the result structs
  are left out: no claim below depends on the clock. A nil map or slice reads as the
  empty one.
\<close>

record Job =
  job_Name :: string
  job_Type :: string
  job_DependsOn :: "string list"
  job_Timeout :: string
  job_Retries :: int
  job_Config :: config

record Stage =
  stage_Name :: string
  stage_Description :: string
  stage_RequireApproval :: bool
  stage_Approvers :: "string list"
  stage_Jobs :: "Job list"

record Rollback =
  rollback_Stages :: "Stage list"

text \<open>\<^verbatim>\<open>Plan.Rollback\<close> is a pointer: \<open>None\<close> is nil.\<close>

record Plan =
  plan_Variables :: config
  plan_Stages :: "Stage list"
  plan_Rollback :: "Rollback option"

record JobResult =
  jr_Name :: string
  jr_Type :: string
  jr_Success :: bool
  jr_Message :: string
  jr_Data :: config

record StageResult =
  sr_Name :: string
  sr_Success :: bool
  sr_Jobs :: "JobResult list"

record ExecutionResult =
  er_ID :: string
  er_Success :: bool
  er_TotalStages :: nat
  er_TotalJobs :: nat
  er_CompletedJobs :: nat
  er_FailedJobs :: nat
  er_Stages :: "StageResult list"

section \<open>internal/config/resolver.go\<close>

text \<open>
  The errors of the resolver, one constructor per \<^verbatim>\<open>fmt.Errorf\<close> of the file:
  \<^verbatim>\<open>reference path not found: %s\<close>, \<^verbatim>\<open>invalid reference path: %s\<close>,
  \<^verbatim>\<open>error resolving value for key %s: %w\<close> and \<^verbatim>\<open>error resolving array item %d: %w\<close>.
\<close>

datatype resolve_error =
    RefPathNotFound string
  | InvalidRefPath string
  | ErrResolvingKey string resolve_error
  | ErrResolvingItem nat resolve_error

text \<open>\<^verbatim>\<open>strings.Split(s, sep)\<close> for a one-byte separator: it always returns at least one part.\<close>

fun Split :: "string \<Rightarrow> char \<Rightarrow> string list" where
  "Split [] sep = [[]]"
| "Split (c # cs) sep =
     (if c = sep then [] # Split cs sep
      else (case Split cs sep of [] \<Rightarrow> [[c]] | p # ps \<Rightarrow> (c # p) # ps))"

text \<open>
  \<^verbatim>\<open>resolvePath\<close>: the loop over the parts, with \<^verbatim>\<open>current\<close> as the loop variable. A
  part is looked up only in a \<^verbatim>\<open>map[string]interface{}\<close>; a missing key and a value that
  is no such map end the loop with the two errors of the source.
\<close>

fun walk_parts :: "string \<Rightarrow> string list \<Rightarrow> val \<Rightarrow> resolve_error + val" where
  "walk_parts path [] current = Inr current"
| "walk_parts path (part # parts) current =
     (case current of
        VMap currentMap \<Rightarrow>
          (case map_of currentMap part of
             None \<Rightarrow> Inl (RefPathNotFound path)
           | Some v \<Rightarrow> walk_parts path parts v)
      | _ \<Rightarrow> Inl (InvalidRefPath path))"

definition resolvePath :: "string \<Rightarrow> config \<Rightarrow> resolve_error + val" where
  "resolvePath path ctx = walk_parts path (Split path (CHR ''.'')) (VMap ctx)"

text \<open>
  The regular expression \<^verbatim>\<open>\${([^}]+)}\<close>. Anchored at the head of \<open>s\<close> it can match in
  one way only: the two bytes \<^verbatim>\<open>${\<close>, then the longest run of bytes other than
  \<^verbatim>\<open>}\<close>, which must be non-empty and must be followed by a \<^verbatim>\<open>}\<close>.
  \<open>match_here\<close> returns the length of that match.
\<close>

definition match_here :: "string \<Rightarrow> nat option" where
  "match_here s =
     (case s of
        c1 # c2 # rest \<Rightarrow>
          (if c1 = CHR ''$'' \<and> c2 = CHR ''{'' then
             (let body = takeWhile (\<lambda>c. c \<noteq> CHR ''}'') rest
              in if body \<noteq> [] \<and> length body < length rest
                 then Some (length body + 3) else None)
           else None)
      | _ \<Rightarrow> None)"

text \<open>\<^verbatim>\<open>refRegex.MatchString\<close>: the expression matches somewhere in the string.\<close>

fun MatchString :: "string \<Rightarrow> bool" where
  "MatchString [] = False"
| "MatchString (c # cs) = (match_here (c # cs) \<noteq> None \<or> MatchString cs)"

lemma match_here_pos: "match_here s = Some n \<Longrightarrow> 0 < n \<and> n \<le> length s"
  by (auto simp: match_here_def Let_def split: list.splits if_splits)

text \<open>
  \<^verbatim>\<open>refRegex.ReplaceAllStringFunc\<close>: the leftmost match is replaced by \<open>repl\<close> of the
  matched text and the scan goes on behind it; a byte where no match starts is copied.
\<close>

function ReplaceAllStringFunc :: "string \<Rightarrow> (string \<Rightarrow> string) \<Rightarrow> string" where
  "ReplaceAllStringFunc [] repl = []"
| "ReplaceAllStringFunc (c # cs) repl =
     (case match_here (c # cs) of
        Some n \<Rightarrow> repl (take n (c # cs)) @ ReplaceAllStringFunc (drop n (c # cs)) repl
      | None \<Rightarrow> c # ReplaceAllStringFunc cs repl)"
  by pat_completeness auto
termination
  by (relation "measure (\<lambda>(s, repl). length s)") (auto dest: match_here_pos)

definition HasPrefix :: "string \<Rightarrow> string \<Rightarrow> bool" where
  "HasPrefix s p = (take (length p) s = p)"

definition HasSuffix :: "string \<Rightarrow> string \<Rightarrow> bool" where
  "HasSuffix s p = (length p \<le> length s \<and> drop (length s - length p) s = p)"

text \<open>
  The slice expression \<^verbatim>\<open>s[i:j]\<close>. Both uses in \<^verbatim>\<open>resolveString\<close> are
  \<^verbatim>\<open>s[2 : len(s)-1]\<close> on a string that holds a match, hence of length 4 at least, so
  the bounds are in range.
\<close>

definition slice :: "string \<Rightarrow> nat \<Rightarrow> nat \<Rightarrow> string" where
  "slice s i j = take (j - i) (drop i s)"

text \<open>
  \<^verbatim>\<open>resolveString\<close>. \<open>Sprintf\<close> stands for \<^verbatim>\<open>fmt.Sprintf("%v", _)\<close> of the Go library,
  taken as a parameter.
\<close>

definition resolveString :: "(val \<Rightarrow> string) \<Rightarrow> string \<Rightarrow> config \<Rightarrow> resolve_error + val" where
  "resolveString Sprintf v ctx =
     (if MatchString v \<and> HasPrefix v ''${'' \<and> HasSuffix v ''}'' then
        (let path = slice v 2 (length v - 1)
         in case resolvePath path ctx of
              Inl err \<Rightarrow> Inl err
            | Inr resolvedValue \<Rightarrow> Inr resolvedValue)
      else
        Inr (VString (ReplaceAllStringFunc v (\<lambda>m.
          (let path = slice m 2 (length m - 1)
           in case resolvePath path ctx of
                Inl err \<Rightarrow> m
              | Inr resolvedValue \<Rightarrow> Sprintf resolvedValue)))))"

text \<open>
  \<^verbatim>\<open>resolveValue\<close>, \<^verbatim>\<open>ResolveValues\<close> and \<^verbatim>\<open>resolveSlice\<close>; the index of
  \<^verbatim>\<open>resolveSlice\<close>'s loop is its second argument.
\<close>

fun resolveValue :: "(val \<Rightarrow> string) \<Rightarrow> val \<Rightarrow> config \<Rightarrow> resolve_error + val"
  and ResolveValues :: "(val \<Rightarrow> string) \<Rightarrow> config \<Rightarrow> config \<Rightarrow> resolve_error + config"
  and resolveSlice :: "(val \<Rightarrow> string) \<Rightarrow> nat \<Rightarrow> val list \<Rightarrow> config \<Rightarrow> resolve_error + val list"
where
  "resolveValue Sprintf (VString s) ctx = resolveString Sprintf s ctx"
| "resolveValue Sprintf (VMap m) ctx =
     (case ResolveValues Sprintf m ctx of Inl err \<Rightarrow> Inl err | Inr r \<Rightarrow> Inr (VMap r))"
| "resolveValue Sprintf (VSlice xs) ctx =
     (case resolveSlice Sprintf 0 xs ctx of Inl err \<Rightarrow> Inl err | Inr r \<Rightarrow> Inr (VSlice r))"
| "resolveValue Sprintf (VInt i) ctx = Inr (VInt i)"
| "resolveValue Sprintf (VBool b) ctx = Inr (VBool b)"
| "resolveValue Sprintf VNil ctx = Inr VNil"
| "ResolveValues Sprintf [] ctx = Inr []"
| "ResolveValues Sprintf ((key, v) # rest) ctx =
     (case resolveValue Sprintf v ctx of
        Inl err \<Rightarrow> Inl (ErrResolvingKey key err)
      | Inr resolvedValue \<Rightarrow>
          (case ResolveValues Sprintf rest ctx of
             Inl err \<Rightarrow> Inl err
           | Inr result \<Rightarrow> Inr ((key, resolvedValue) # result)))"
| "resolveSlice Sprintf i [] ctx = Inr []"
| "resolveSlice Sprintf i (item # items) ctx =
     (case resolveValue Sprintf item ctx of
        Inl err \<Rightarrow> Inl (ErrResolvingItem i err)
      | Inr resolvedItem \<Rightarrow>
          (case resolveSlice Sprintf (Suc i) items ctx of
             Inl err \<Rightarrow> Inl err
           | Inr result \<Rightarrow> Inr (resolvedItem # result)))"

section \<open>pkg/plugin and internal/plugins/manager.go\<close>

text \<open>
  The \<^verbatim>\<open>context.Context\<close> of a run carries three values, under the keys
  \<^verbatim>\<open>executionID\<close>, \<^verbatim>\<open>variables\<close> and \<^verbatim>\<open>stageName\<close>; \<open>None\<close> is an absent
  key.
\<close>

record Ctx =
  ctx_executionID :: string
  ctx_variables :: "config option"
  ctx_stageName :: "string option"

record Result =
  res_Success :: bool
  res_Data :: config
  res_Message :: string
  res_ExecutionID :: string

text \<open>
  A handler, by the two capabilities the engine calls. Handlers are code outside the
  repository: each is a function of the context and the configuration it receives.
  \<^verbatim>\<open>Validate\<close> returns an error message or nothing; \<^verbatim>\<open>Execute\<close> returns an
  error message or a result (a handler answering with neither would make
  \<^verbatim>\<open>executeJob\<close> read through a nil pointer; the sum type leaves that handler out).
\<close>

record Plugin =
  plg_Validate :: "Ctx \<Rightarrow> config \<Rightarrow> string option"
  plg_Execute :: "Ctx \<Rightarrow> config \<Rightarrow> string + Result"

type_synonym registry = "string \<Rightarrow> Plugin option"

text \<open>
  What a run does besides returning: the lines it prints (each without its final
  newline) and the calls it makes to handlers, with the job type and the configuration
  passed. The jobs of one wave run concurrently; their events are listed in dispatch
  order.
\<close>

datatype event =
    Printed string
  | ValidateCalled string config
  | ExecuteCalled string config

definition GetPlugin :: "registry \<Rightarrow> string \<Rightarrow> string + Plugin" where
  "GetPlugin reg name =
     (case reg name of
        None \<Rightarrow> Inl (''plugin '' @ name @ '' not found'')
      | Some plg \<Rightarrow> Inr plg)"

definition ExecutePlugin :: "registry \<Rightarrow> Ctx \<Rightarrow> string \<Rightarrow> config \<Rightarrow> (string + Result) \<times> event list" where
  "ExecutePlugin reg ctx jobType cfg =
     (case GetPlugin reg jobType of
        Inl err \<Rightarrow> (Inl err, [])
      | Inr plg \<Rightarrow>
          (let vars = (case ctx_variables ctx of Some m \<Rightarrow> m | None \<Rightarrow> []);
               execCtx = (if length vars > 0 \<and> ctx_variables ctx = None
                          then ctx\<lparr>ctx_variables := Some vars\<rparr> else ctx)
           in case plg_Validate plg execCtx cfg of
                Some err \<Rightarrow> (Inl (''invalid configuration: '' @ err), [ValidateCalled jobType cfg])
              | None \<Rightarrow>
                  (plg_Execute plg execCtx cfg,
                   [ValidateCalled jobType cfg, ExecuteCalled jobType cfg])))"

section \<open>internal/engine: the job graph\<close>

text \<open>
  \<^verbatim>\<open>JobGraph\<close>. The three maps keyed by job name are association lists; \<^verbatim>\<open>completed\<close>,
  a \<^verbatim>\<open>map[string]bool\<close> that only ever stores \<^verbatim>\<open>true\<close>, is the set of its keys.
\<close>

record JobGraph =
  jobs :: "(string \<times> Job) list"
  dependencies :: "(string \<times> string list) list"
  dependents :: "(string \<times> string list) list"
  completed :: "string set"

definition NewJobGraph :: JobGraph where
  "NewJobGraph = \<lparr>jobs = [], dependencies = [], dependents = [], completed = {}\<rparr>"

text \<open>Reading a \<^verbatim>\<open>map[string][]string\<close> at a key: a missing key reads as the nil slice.\<close>

definition index_list :: "(string \<times> string list) list \<Rightarrow> string \<Rightarrow> string list" where
  "index_list m k = (case map_of m k of None \<Rightarrow> [] | Some xs \<Rightarrow> xs)"

definition AddJob :: "JobGraph \<Rightarrow> Job \<Rightarrow> JobGraph" where
  "AddJob g job =
     g\<lparr>jobs := AList.update (job_Name job) job (jobs g),
       dependencies :=
         (if map_of (dependencies g) (job_Name job) = None
          then AList.update (job_Name job) [] (dependencies g) else dependencies g),
       dependents :=
         (if map_of (dependents g) (job_Name job) = None
          then AList.update (job_Name job) [] (dependents g) else dependents g)\<rparr>"

definition AddDependency :: "JobGraph \<Rightarrow> string \<Rightarrow> string \<Rightarrow> JobGraph" where
  "AddDependency g jobName dependsOn =
     g\<lparr>dependencies :=
         AList.update jobName (index_list (dependencies g) jobName @ [dependsOn]) (dependencies g),
       dependents :=
         AList.update dependsOn (index_list (dependents g) dependsOn @ [jobName]) (dependents g)\<rparr>"

definition GetReadyJobs :: "JobGraph \<Rightarrow> Job list" where
  "GetReadyJobs g =
     map snd (filter (\<lambda>(name, job).
        name \<notin> completed g \<and>
        list_all (\<lambda>dep. dep \<in> completed g) (index_list (dependencies g) name)) (jobs g))"

definition MarkCompleted :: "JobGraph \<Rightarrow> string \<Rightarrow> JobGraph" where
  "MarkCompleted g jobName = g\<lparr>completed := insert jobName (completed g)\<rparr>"

definition IsCompleted :: "JobGraph \<Rightarrow> bool" where
  "IsCompleted g = list_all (\<lambda>(name, job). name \<in> completed g) (jobs g)"

text \<open>
  \<^verbatim>\<open>hasCyclesDFS\<close> and the loop over the dependencies inside it. The two maps
  \<^verbatim>\<open>visited\<close> and \<^verbatim>\<open>recStack\<close> are shared by all calls, so each call returns them
  besides its result. On the early returns with \<^verbatim>\<open>true\<close> the node stays on the
  recursion stack, as in the source.
\<close>

function hasCyclesDFS :: "JobGraph \<Rightarrow> string \<Rightarrow> string set \<Rightarrow> string set \<Rightarrow> bool \<times> string set \<times> string set"
  and range_deps :: "JobGraph \<Rightarrow> string list \<Rightarrow> string set \<Rightarrow> string set \<Rightarrow> bool \<times> string set \<times> string set"
where
  "hasCyclesDFS g node visited recStack =
     (case range_deps g (index_list (dependencies g) node) (insert node visited) (insert node recStack) of
        (found, visited', recStack') \<Rightarrow>
          if found then (True, visited', recStack')
          else (False, visited', recStack' - {node}))"
| "range_deps g [] visited recStack = (False, visited, recStack)"
| "range_deps g (dep # rest) visited recStack =
     (if dep \<notin> visited then
        (case hasCyclesDFS g dep visited recStack of
           (found, visited', recStack') \<Rightarrow>
             if found then (True, visited', recStack')
             else range_deps g rest visited' recStack')
      else if dep \<in> recStack then (True, visited, recStack)
      else range_deps g rest visited recStack)"
  by pat_completeness auto

text \<open>
  The search only adds to \<^verbatim>\<open>visited\<close>. The termination proof needs this for the
  iteration that follows a recursive call, which goes on with the map as that call
  left it.
\<close>

lemma dfs_visited_mono:
  "hasCyclesDFS_range_deps_dom (Inl (g, node, visited, recStack)) \<Longrightarrow>
     visited \<subseteq> fst (snd (hasCyclesDFS g node visited recStack))"
  "hasCyclesDFS_range_deps_dom (Inr (g, ds, visited, recStack)) \<Longrightarrow>
     visited \<subseteq> fst (snd (range_deps g ds visited recStack))"
proof (induction g node visited recStack and g ds visited recStack rule: hasCyclesDFS_range_deps.pinduct)
  case (1 g node visited recStack)
  then show ?case
    by (auto simp: hasCyclesDFS.psimps split: prod.splits if_splits)
next
  case (2 g visited recStack)
  then show ?case by (simp add: range_deps.psimps)
next
  case (3 g dep rest visited recStack)
  obtain found v r where eq: "hasCyclesDFS g dep visited recStack = (found, v, r)"
    by (cases "hasCyclesDFS g dep visited recStack") auto
  show ?case
  proof (cases "dep \<notin> visited")
    case True
    have a: "visited \<subseteq> v" using 3(2)[OF True] eq by simp
    show ?thesis
    proof (cases found)
      case True
      then show ?thesis using a eq \<open>dep \<notin> visited\<close> 3(1) by (simp add: range_deps.psimps)
    next
      case False
      have "v \<subseteq> fst (snd (range_deps g rest v r))"
        using 3(3)[OF \<open>dep \<notin> visited\<close> eq[symmetric] refl] False by simp
      then show ?thesis using a eq \<open>dep \<notin> visited\<close> False 3(1)
        by (auto simp: range_deps.psimps)
    qed
  next
    case False
    then show ?thesis using 3(1) 3(4) by (auto simp: range_deps.psimps)
  qed
qed

text \<open>
  The termination order: the number of keys of the dependency map not yet visited,
  then the length of what is left of the dependency list at hand. A node that is no
  key of the map has no dependencies.
\<close>

definition dfs_measure :: "(JobGraph \<times> string \<times> string set \<times> string set) + (JobGraph \<times> string list \<times> string set \<times> string set) \<Rightarrow> nat \<times> nat" where
  "dfs_measure x =
     (case x of
        Inl (g, node, visited, recStack) \<Rightarrow>
          (card (fst ` set (dependencies g) - insert node visited),
           2 * length (index_list (dependencies g) node) + 1)
      | Inr (g, ds, visited, recStack) \<Rightarrow>
          (card (fst ` set (dependencies g) - visited), 2 * length ds))"

lemma index_list_no_key: "k \<notin> fst ` set m \<Longrightarrow> index_list m k = []"
  by (force simp: index_list_def split: option.splits dest: map_of_SomeD)

termination hasCyclesDFS
proof (relation "inv_image (less_than <*lex*> less_than) dfs_measure", goal_cases)
  case 1
  then show ?case by (intro wf_inv_image wf_lex_prod wf_less_than)
next
  case (2 g node visited recStack)
  then show ?case by (simp add: dfs_measure_def)
next
  case (3 g dep rest visited recStack)
  show ?case
  proof (cases "dep \<in> fst ` set (dependencies g)")
    case True
    have "card (fst ` set (dependencies g) - insert dep visited) < card (fst ` set (dependencies g) - visited)"
      using True 3 by (intro psubset_card_mono) auto
    then show ?thesis by (simp add: dfs_measure_def)
  next
    case False
    then have "fst ` set (dependencies g) - insert dep visited = fst ` set (dependencies g) - visited"
      by auto
    then show ?thesis using False by (simp add: dfs_measure_def index_list_no_key)
  qed
next
  case (4 g dep rest visited recStack x y xa ya)
  have "hasCyclesDFS g dep visited recStack = (x, xa, ya)" using 4 by simp
  moreover have "visited \<subseteq> fst (snd (hasCyclesDFS g dep visited recStack))"
    using dfs_visited_mono(1)[of g dep visited recStack] 4 by simp
  ultimately have "visited \<subseteq> xa" by simp
  then have "card (fst ` set (dependencies g) - xa) \<le> card (fst ` set (dependencies g) - visited)"
    by (intro card_mono) auto
  then show ?case by (auto simp: dfs_measure_def)
next
  case (5 g dep rest visited recStack)
  then show ?case by (simp add: dfs_measure_def)
qed

declare hasCyclesDFS.simps [simp del]

text \<open>\<^verbatim>\<open>HasCycles\<close>: the loop over the names of \<^verbatim>\<open>g.jobs\<close>, and the method.\<close>

fun range_jobs :: "JobGraph \<Rightarrow> string list \<Rightarrow> string set \<Rightarrow> string set \<Rightarrow> bool" where
  "range_jobs g [] visited recStack = False"
| "range_jobs g (name # rest) visited recStack =
     (if name \<notin> visited then
        (case hasCyclesDFS g name visited recStack of
           (found, visited', recStack') \<Rightarrow>
             if found then True else range_jobs g rest visited' recStack')
      else range_jobs g rest visited recStack)"

definition HasCycles :: "JobGraph \<Rightarrow> bool" where
  "HasCycles g = range_jobs g (map fst (jobs g)) {} {}"

section \<open>internal/engine: the executor\<close>

definition executeJob :: "registry \<Rightarrow> Ctx \<Rightarrow> Job \<Rightarrow> (bool \<times> string \<times> config) \<times> event list" where
  "executeJob reg ctx job =
     (let line = Printed (''Executing job: '' @ job_Name job @ '' (type: '' @ job_Type job @ '')'')
      in case ExecutePlugin reg ctx (job_Type job) (job_Config job) of
           (Inl err, evs) \<Rightarrow> ((False, ''Failed to execute job: '' @ err, []), line # evs)
         | (Inr result, evs) \<Rightarrow>
             (if \<not> res_Success result
              then ((False, res_Message result, res_Data result), line # evs)
              else ((True, res_Message result, res_Data result), line # evs)))"

text \<open>The body of the goroutine that \<^verbatim>\<open>ExecuteGraph\<close> starts for one ready job.\<close>

definition run_job :: "registry \<Rightarrow> Ctx \<Rightarrow> bool \<Rightarrow> Job \<Rightarrow> JobResult \<times> event list" where
  "run_job reg ctx dryRun job =
     (if dryRun then
        (\<lparr>jr_Name = job_Name job, jr_Type = job_Type job, jr_Success = True,
          jr_Message = ''Dry run simulation'', jr_Data = []\<rparr>, [])
      else
        (case executeJob reg ctx job of
           ((success, message, data), evs) \<Rightarrow>
             (\<lparr>jr_Name = job_Name job, jr_Type = job_Type job, jr_Success = success,
               jr_Message = message, jr_Data = data\<rparr>, evs)))"

text \<open>
  The loop \<^verbatim>\<open>for _, result := range jobResults\<close> after the barrier: it appends the
  result, then marks the job completed or returns the error.
\<close>

fun process_results :: "JobResult list \<Rightarrow> JobGraph \<Rightarrow> StageResult \<Rightarrow> string option \<times> JobGraph \<times> StageResult" where
  "process_results [] g stageResult = (None, g, stageResult)"
| "process_results (result # rest) g stageResult =
     (if jr_Success result then
        process_results rest (MarkCompleted g (jr_Name result))
          (stageResult\<lparr>sr_Jobs := sr_Jobs stageResult @ [result]\<rparr>)
      else
        (Some (''job '' @ jr_Name result @ '' failed: '' @ jr_Message result), g,
         stageResult\<lparr>sr_Jobs := sr_Jobs stageResult @ [result]\<rparr>))"

text \<open>
  The loop \<^verbatim>\<open>for len(readyJobs) > 0\<close>. Nothing in its text bounds the number of
  waves, so it is a partial function: \<open>None\<close> is a run that never returns. The result
  is the returned error, the graph and the stage result as the loop leaves them, and
  the events.
\<close>

partial_function (option) wave_loop ::
  "registry \<Rightarrow> Ctx \<Rightarrow> bool \<Rightarrow> Job list \<Rightarrow> JobGraph \<Rightarrow> StageResult \<Rightarrow> event list \<Rightarrow>
   (string option \<times> JobGraph \<times> StageResult \<times> event list) option"
where
  "wave_loop reg ctx dryRun readyJobs g stageResult evs =
     (if length readyJobs > 0 then
        (case process_results (map (\<lambda>job. fst (run_job reg ctx dryRun job)) readyJobs) g stageResult of
           (Some err, g', stageResult') \<Rightarrow>
             Some (Some err, g', stageResult',
                   evs @ concat (map (\<lambda>job. snd (run_job reg ctx dryRun job)) readyJobs))
         | (None, g', stageResult') \<Rightarrow>
             wave_loop reg ctx dryRun (GetReadyJobs g') g' stageResult'
               (evs @ concat (map (\<lambda>job. snd (run_job reg ctx dryRun job)) readyJobs)))
      else Some (None, g, stageResult, evs))"

declare wave_loop.simps [code]

definition ExecuteGraph ::
  "registry \<Rightarrow> Ctx \<Rightarrow> JobGraph \<Rightarrow> StageResult \<Rightarrow> bool \<Rightarrow>
   (string option \<times> JobGraph \<times> StageResult \<times> event list) option"
where
  "ExecuteGraph reg ctx g stageResult dryRun =
     (if HasCycles g then Some (Some ''dependency cycle detected in job graph'', g, stageResult, [])
      else wave_loop reg ctx dryRun (GetReadyJobs g) g stageResult [])"

section \<open>internal/engine: the orchestrator\<close>

record ExecuteOptions =
  AutoRollback :: bool
  SkipApproval :: bool
  DryRun :: bool

text \<open>
  \<^verbatim>\<open>buildDependencyGraph\<close>: all jobs are added first, then the dependencies of
  each job, in the order of the list.
\<close>

fun add_dependencies :: "JobGraph \<Rightarrow> string \<Rightarrow> string list \<Rightarrow> JobGraph" where
  "add_dependencies g jobName [] = g"
| "add_dependencies g jobName (depName # rest) =
     add_dependencies (AddDependency g jobName depName) jobName rest"

definition buildDependencyGraph :: "Job list \<Rightarrow> JobGraph" where
  "buildDependencyGraph js =
     foldl (\<lambda>g job. add_dependencies g (job_Name job) (job_DependsOn job))
       (foldl AddJob NewJobGraph js) js"

text \<open>The struct literal \<^verbatim>\<open>StageResult{Name: name}\<close>.\<close>

definition new_StageResult :: "string \<Rightarrow> StageResult" where
  "new_StageResult name = \<lparr>sr_Name = name, sr_Success = False, sr_Jobs = []\<rparr>"

definition executeStage ::
  "registry \<Rightarrow> Ctx \<Rightarrow> Stage \<Rightarrow> StageResult \<Rightarrow> ExecuteOptions \<Rightarrow>
   (string option \<times> StageResult \<times> event list) option"
where
  "executeStage reg ctx stage result options =
     (let graph = buildDependencyGraph (stage_Jobs stage);
          stageCtx = ctx\<lparr>ctx_stageName := Some (stage_Name stage)\<rparr>
      in case ExecuteGraph reg stageCtx graph result (DryRun options) of
           None \<Rightarrow> None
         | Some (err, graph', result', evs) \<Rightarrow> Some (err, result', evs))"

text \<open>
  \<^verbatim>\<open>executeRollback\<close>: the loop over the rollback stages, then the function. The
  stage result and the error of a rollback stage are local to the loop body; the
  function returns nil in every case, so the model returns only the events.
\<close>

fun rollback_loop :: "registry \<Rightarrow> Ctx \<Rightarrow> Stage list \<Rightarrow> event list \<Rightarrow> event list option" where
  "rollback_loop reg ctx [] evs = Some evs"
| "rollback_loop reg ctx (stage # rest) evs =
     (let graph = buildDependencyGraph (stage_Jobs stage);
          stageResult = new_StageResult (stage_Name stage)
      in case ExecuteGraph reg ctx graph stageResult False of
           None \<Rightarrow> None
         | Some (None, graph', stageResult', evs') \<Rightarrow> rollback_loop reg ctx rest (evs @ evs')
         | Some (Some err, graph', stageResult', evs') \<Rightarrow>
             rollback_loop reg ctx rest
               (evs @ evs' @ [Printed (''Rollback stage '' @ stage_Name stage @ '' failed: '' @ err)]))"

definition executeRollback :: "registry \<Rightarrow> Ctx \<Rightarrow> Rollback \<Rightarrow> event list option" where
  "executeRollback reg ctx rollback =
     (case rollback_loop reg ctx (rollback_Stages rollback) [Printed ''Starting rollback execution...''] of
        None \<Rightarrow> None
      | Some evs \<Rightarrow> Some (evs @ [Printed ''Rollback execution completed'']))"

text \<open>
  \<^verbatim>\<open>finalizeResult\<close> builds its error with \<^verbatim>\<open>fmt.Errorf(message)\<close>, the message
  standing as the format string; \<open>Errorf m\<close> is that error. Its text is \<open>m\<close> when
  \<open>m\<close> holds no per cent sign.
\<close>

datatype go_error = Errorf string

fun tally_job :: "nat \<times> nat \<Rightarrow> JobResult \<Rightarrow> nat \<times> nat" where
  "tally_job (completedJobs, failedJobs) job =
     (if jr_Success job then (completedJobs + 1, failedJobs) else (completedJobs, failedJobs + 1))"

definition finalizeResult :: "ExecutionResult \<Rightarrow> bool \<Rightarrow> string \<Rightarrow> ExecutionResult \<times> go_error option" where
  "finalizeResult result success message =
     (case foldl (\<lambda>counts stage. foldl tally_job counts (sr_Jobs stage))
             (er_CompletedJobs result, er_FailedJobs result) (er_Stages result) of
        (completedJobs, failedJobs) \<Rightarrow>
          (result\<lparr>er_Success := success, er_CompletedJobs := completedJobs, er_FailedJobs := failedJobs\<rparr>,
           if \<not> success then Some (Errorf message) else None))"

definition countTotalJobs :: "Plan \<Rightarrow> nat" where
  "countTotalJobs plan = foldl (\<lambda>count stage. count + length (stage_Jobs stage)) 0 (plan_Stages plan)"

text \<open>
  \<^verbatim>\<open>ExecutePlan\<close>: the loop over the stages, then the function. The execution
  identifier, a fresh UUID in the source, is a parameter.
\<close>

fun stage_loop ::
  "registry \<Rightarrow> Ctx \<Rightarrow> Plan \<Rightarrow> ExecuteOptions \<Rightarrow> Stage list \<Rightarrow> ExecutionResult \<Rightarrow> event list \<Rightarrow>
   (ExecutionResult \<times> go_error option \<times> event list) option"
where
  "stage_loop reg execCtx plan options [] result evs =
     (case finalizeResult result True ''Plan execution completed successfully'' of
        (result', err) \<Rightarrow> Some (result', err, evs))"
| "stage_loop reg execCtx plan options (stage # rest) result evs =
     (let approval =
            (if stage_RequireApproval stage \<and> \<not> SkipApproval options
             then [Printed (''Stage '' @ stage_Name stage @ '' requires approval. Waiting for approval...''),
                   Printed (''Stage '' @ stage_Name stage @ '' approved.'')]
             else [])
      in case executeStage reg execCtx stage (new_StageResult (stage_Name stage)) options of
           None \<Rightarrow> None
         | Some (stageErr, stageResult, evs') \<Rightarrow>
             (let result' = result\<lparr>er_Stages :=
                     er_Stages result @ [stageResult\<lparr>sr_Success := (stageErr = None)\<rparr>]\<rparr>
              in case stageErr of
                   Some err \<Rightarrow>
                     (case (if AutoRollback options \<and> plan_Rollback plan \<noteq> None
                            then executeRollback reg execCtx (the (plan_Rollback plan))
                            else Some []) of
                        None \<Rightarrow> None
                      | Some evs'' \<Rightarrow>
                          (case finalizeResult result' False
                                  (''Stage '' @ stage_Name stage @ '' failed: '' @ err) of
                             (result'', err') \<Rightarrow>
                               Some (result'', err', evs @ approval @ evs' @ evs'')))
                 | None \<Rightarrow>
                     stage_loop reg execCtx plan options rest result'
                       (evs @ approval @ evs' @
                        [Printed (''Stage '' @ stage_Name stage @ '' completed successfully.'')])))"

definition ExecutePlan ::
  "registry \<Rightarrow> string \<Rightarrow> Plan \<Rightarrow> ExecuteOptions \<Rightarrow>
   (ExecutionResult \<times> go_error option \<times> event list) option"
where
  "ExecutePlan reg executionID plan options =
     (let execCtx = \<lparr>ctx_executionID = executionID, ctx_variables = Some (plan_Variables plan),
                      ctx_stageName = None\<rparr>;
          result = \<lparr>er_ID = executionID, er_Success = False,
                     er_TotalStages = length (plan_Stages plan),
                     er_TotalJobs = countTotalJobs plan,
                     er_CompletedJobs = 0, er_FailedJobs = 0, er_Stages = []\<rparr>
      in stage_loop reg execCtx plan options (plan_Stages plan) result [])"

section \<open>Notions of the specification\<close>

text \<open>
  The specification's reading of a path: the value stored under the successive keys,
  each looked up in a mapping. This definition follows the specification's words and
  is what \<^verbatim>\<open>resolvePath\<close> is compared with.
\<close>

fun value_at :: "string list \<Rightarrow> val \<Rightarrow> val option" where
  "value_at [] v = Some v"
| "value_at (k # ks) (VMap m) = (case map_of m k of None \<Rightarrow> None | Some v \<Rightarrow> value_at ks v)"
| "value_at (k # ks) v = None"

text \<open>The string that consists of the one reference to the path \<open>p\<close>.\<close>

definition whole_reference :: "string \<Rightarrow> string" where
  "whole_reference p = ''${'' @ p @ ''}''"

text \<open>
  A string occurs in a configuration value: it is the value itself, or it occurs in a
  value of the mapping or in an item of the list, at any depth. The three functions
  follow the tree as \<^verbatim>\<open>resolveValue\<close>, \<^verbatim>\<open>ResolveValues\<close> and the loop over a list do.
\<close>

fun occurs_in :: "string \<Rightarrow> val \<Rightarrow> bool"
  and occurs_in_map :: "string \<Rightarrow> config \<Rightarrow> bool"
  and occurs_in_slice :: "string \<Rightarrow> val list \<Rightarrow> bool"
where
  "occurs_in s (VString t) = (t = s)"
| "occurs_in s (VMap m) = occurs_in_map s m"
| "occurs_in s (VSlice xs) = occurs_in_slice s xs"
| "occurs_in s (VInt i) = False"
| "occurs_in s (VBool b) = False"
| "occurs_in s VNil = False"
| "occurs_in_map s [] = False"
| "occurs_in_map s ((key, v) # rest) = (occurs_in s v \<or> occurs_in_map s rest)"
| "occurs_in_slice s [] = False"
| "occurs_in_slice s (item # items) = (occurs_in s item \<or> occurs_in_slice s items)"

text \<open>
  The directed dependency graph of a job graph: an edge from a job to each name in its
  dependency list. A cycle is a name that reaches itself along one edge or more, so
  the graph has a cycle exactly when the edge relation is not \<open>acyclic\<close>.
\<close>

definition dep_edges :: "JobGraph \<Rightarrow> (string \<times> string) set" where
  "dep_edges g = {(a, b). b \<in> set (index_list (dependencies g) a)}"

text \<open>Every dependency edge targets a registered job.\<close>

definition deps_registered :: "JobGraph \<Rightarrow> bool" where
  "deps_registered g =
     (\<forall>a \<in> fst ` set (dependencies g).
        \<forall>b \<in> set (index_list (dependencies g) a). b \<in> fst ` set (jobs g))"

text \<open>
  What \<^verbatim>\<open>AddJob\<close>, the only writer of \<^verbatim>\<open>g.jobs\<close>, maintains: a map has each key
  once, and every job is stored under its own name.
\<close>

definition graph_inv :: "JobGraph \<Rightarrow> bool" where
  "graph_inv g =
     (distinct (map fst (jobs g)) \<and> (\<forall>(name, job) \<in> set (jobs g). job_Name job = name))"

text \<open>
  The invariant of the depth-first search. The nodes that are visited and no longer on
  the recursion stack are finished: all their dependencies are finished too, and none
  of them lies on a cycle.
\<close>

definition dfs_inv :: "JobGraph \<Rightarrow> string set \<Rightarrow> string set \<Rightarrow> bool" where
  "dfs_inv g visited recStack =
     (recStack \<subseteq> visited \<and>
      (\<forall>b \<in> visited - recStack.
         set (index_list (dependencies g) b) \<subseteq> visited - recStack \<and>
         (b, b) \<notin> (dep_edges g)\<^sup>+))"

subsection \<open>Waves\<close>

text \<open>The job results of one wave, in dispatch order: the slice \<^verbatim>\<open>jobResults\<close> after the barrier.\<close>

definition wave_results :: "registry \<Rightarrow> Ctx \<Rightarrow> bool \<Rightarrow> Job list \<Rightarrow> JobResult list" where
  "wave_results reg ctx dryRun readyJobs = map (\<lambda>job. fst (run_job reg ctx dryRun job)) readyJobs"

text \<open>The events of one wave: every ready job is dispatched.\<close>

definition wave_events :: "registry \<Rightarrow> Ctx \<Rightarrow> bool \<Rightarrow> Job list \<Rightarrow> event list" where
  "wave_events reg ctx dryRun readyJobs = concat (map (\<lambda>job. snd (run_job reg ctx dryRun job)) readyJobs)"

text \<open>The graph after \<^verbatim>\<open>MarkCompleted\<close> for each of the given results.\<close>

definition mark_all :: "JobGraph \<Rightarrow> JobResult list \<Rightarrow> JobGraph" where
  "mark_all g rs = g\<lparr>completed := completed g \<union> jr_Name ` set rs\<rparr>"

text \<open>The stage result with the given results appended to \<^verbatim>\<open>Jobs\<close>.\<close>

definition append_jobs :: "StageResult \<Rightarrow> JobResult list \<Rightarrow> StageResult" where
  "append_jobs sr rs = sr\<lparr>sr_Jobs := sr_Jobs sr @ rs\<rparr>"

text \<open>The error \<^verbatim>\<open>fmt.Errorf("job %s failed: %s", result.Name, result.Message)\<close>.\<close>

definition job_failed :: "JobResult \<Rightarrow> string" where
  "job_failed r = ''job '' @ jr_Name r @ '' failed: '' @ jr_Message r"

text \<open>The jobs not yet completed; their number bounds the waves still to come.\<close>

definition pending :: "JobGraph \<Rightarrow> (string \<times> Job) list" where
  "pending g = filter (\<lambda>(name, job). name \<notin> completed g) (jobs g)"

text \<open>What holds when the wave loop, started on the graph \<open>g\<close>, returns: the job and dependency maps are unchanged, completed jobs stay completed, the appended results \<open>new\<close> and the events come from jobs of the graph, and either no error is returned, every appended result is a success and no job is ready, or the error names the last appended result, the only failed one, and the graph is not completed.\<close>

definition wave_post ::
  "registry \<Rightarrow> Ctx \<Rightarrow> bool \<Rightarrow> JobGraph \<Rightarrow> string option \<Rightarrow> JobGraph \<Rightarrow> JobResult list \<Rightarrow> event list \<Rightarrow> bool"
where
  "wave_post reg ctx dryRun g err g' new evs' =
     (jobs g' = jobs g \<and> dependencies g' = dependencies g \<and> completed g \<subseteq> completed g' \<and>
      set new \<subseteq> (\<lambda>job. fst (run_job reg ctx dryRun job)) ` snd ` set (jobs g) \<and>
      set evs' \<subseteq> (\<Union>job \<in> snd ` set (jobs g). set (snd (run_job reg ctx dryRun job))) \<and>
      (case err of
         None \<Rightarrow> list_all jr_Success new \<and> GetReadyJobs g' = []
       | Some e \<Rightarrow>
           (\<exists>ok failed. new = ok @ [failed] \<and> list_all jr_Success ok \<and> \<not> jr_Success failed \<and>
              e = job_failed failed) \<and>
           \<not> IsCompleted g'))"

subsection \<open>Runs of a plan\<close>

text \<open>An event is a call to a handler, as opposed to a printed line.\<close>

fun is_handler_call :: "event \<Rightarrow> bool" where
  "is_handler_call (Printed s) = False"
| "is_handler_call (ValidateCalled t c) = True"
| "is_handler_call (ExecuteCalled t c) = True"

text \<open>The events of one rollback stage as \<^verbatim>\<open>executeRollback\<close> runs it: \<^verbatim>\<open>ExecuteGraph\<close> on a fresh graph of the stage's jobs and a fresh stage result, in the given mode, then the line that reports the stage's failure, if it failed.\<close>

definition rollback_stage_events :: "registry \<Rightarrow> Ctx \<Rightarrow> bool \<Rightarrow> Stage \<Rightarrow> event list" where
  "rollback_stage_events reg ctx dryRun stage =
     (case ExecuteGraph reg ctx (buildDependencyGraph (stage_Jobs stage))
             (new_StageResult (stage_Name stage)) dryRun of
        None \<Rightarrow> []
      | Some (err, g', sr', evs) \<Rightarrow>
          evs @ (case err of
                   None \<Rightarrow> []
                 | Some e \<Rightarrow> [Printed (''Rollback stage '' @ stage_Name stage @ '' failed: '' @ e)]))"

text \<open>The events of a whole rollback: the opening line, every rollback stage in order, the closing line.\<close>

definition rollback_events :: "registry \<Rightarrow> Ctx \<Rightarrow> bool \<Rightarrow> Rollback \<Rightarrow> event list" where
  "rollback_events reg ctx dryRun rollback =
     Printed ''Starting rollback execution...'' #
     concat (map (rollback_stage_events reg ctx dryRun) (rollback_Stages rollback)) @
     [Printed ''Rollback execution completed'']"

text \<open>The events that follow the failure of a forward stage: the rollback in real mode (\<open>dryRun\<close> is \<open>False\<close>) when the plan has a rollback section and \<^verbatim>\<open>AutoRollback\<close> is set, nothing otherwise.\<close>

definition failure_events :: "registry \<Rightarrow> Ctx \<Rightarrow> Plan \<Rightarrow> ExecuteOptions \<Rightarrow> event list" where
  "failure_events reg ctx plan options =
     (case plan_Rollback plan of
        None \<Rightarrow> []
      | Some rollback \<Rightarrow> if AutoRollback options then rollback_events reg ctx False rollback else [])"

text \<open>The two lines printed for a stage that requires approval, when approvals are not skipped.\<close>

definition approval_lines :: "ExecuteOptions \<Rightarrow> Stage \<Rightarrow> event list" where
  "approval_lines options stage =
     (if stage_RequireApproval stage \<and> \<not> SkipApproval options
      then [Printed (''Stage '' @ stage_Name stage @ '' requires approval. Waiting for approval...''),
            Printed (''Stage '' @ stage_Name stage @ '' approved.'')]
      else [])"

text \<open>The execution context that \<^verbatim>\<open>ExecutePlan\<close> builds.\<close>

definition run_ctx :: "string \<Rightarrow> Plan \<Rightarrow> Ctx" where
  "run_ctx executionID plan =
     \<lparr>ctx_executionID = executionID, ctx_variables = Some (plan_Variables plan), ctx_stageName = None\<rparr>"

text \<open>The error of a failed run: \<^verbatim>\<open>Stage %s failed: %v\<close> with the stage's name and error.\<close>

definition stage_failed :: "string \<Rightarrow> string \<Rightarrow> go_error" where
  "stage_failed name msg = Errorf (''Stage '' @ name @ '' failed: '' @ msg)"

text \<open>
  The outcome of a forward stage as the loop of \<^verbatim>\<open>ExecutePlan\<close> runs it, on a fresh
  stage result: \<open>Some None\<close> when \<^verbatim>\<open>executeStage\<close> returns no error, \<open>Some (Some msg)\<close>
  when it returns the error \<open>msg\<close>.
\<close>

definition stage_outcome :: "registry \<Rightarrow> Ctx \<Rightarrow> ExecuteOptions \<Rightarrow> Stage \<Rightarrow> string option option" where
  "stage_outcome reg ctx options stage =
     map_option fst (executeStage reg ctx stage (new_StageResult (stage_Name stage)) options)"

text \<open>The execution result and the error of a run, without its events.\<close>

definition outcome ::
  "(ExecutionResult \<times> go_error option \<times> event list) option \<Rightarrow> (ExecutionResult \<times> go_error option) option" where
  "outcome r = (case r of None \<Rightarrow> None | Some (result, err, evs) \<Rightarrow> Some (result, err))"

text \<open>The handler calls of a run, in order.\<close>

definition handler_calls ::
  "(ExecutionResult \<times> go_error option \<times> event list) option \<Rightarrow> event list" where
  "handler_calls r = (case r of None \<Rightarrow> [] | Some (result, err, evs) \<Rightarrow> filter is_handler_call evs)"

text \<open>The jobs of the rollback section of a plan.\<close>

definition rollback_jobs :: "Plan \<Rightarrow> Job set" where
  "rollback_jobs plan =
     (case plan_Rollback plan of
        None \<Rightarrow> {}
      | Some rollback \<Rightarrow> (\<Union>stage \<in> set (rollback_Stages rollback). set (stage_Jobs stage)))"

text \<open>All jobs of a plan: those of its stages and those of its rollback section.\<close>

definition plan_jobs :: "Plan \<Rightarrow> Job set" where
  "plan_jobs plan = (\<Union>stage \<in> set (plan_Stages plan). set (stage_Jobs stage)) \<union> rollback_jobs plan"

text \<open>The two handler calls that carry a job's type and its configuration exactly as the plan holds it.\<close>

definition job_calls :: "Job \<Rightarrow> event set" where
  "job_calls job =
     {ValidateCalled (job_Type job) (job_Config job), ExecuteCalled (job_Type job) (job_Config job)}"

text \<open>The events of a run of a plan.\<close>

definition plan_events ::
  "(ExecutionResult \<times> go_error option \<times> event list) option \<Rightarrow> event list" where
  "plan_events r = (case r of None \<Rightarrow> [] | Some (result, err, evs) \<Rightarrow> evs)"

text \<open>The execution result as \<^verbatim>\<open>ExecutePlan\<close> creates it, before the first stage.\<close>

definition initial_result :: "string \<Rightarrow> Plan \<Rightarrow> ExecutionResult" where
  "initial_result executionID plan =
     \<lparr>er_ID = executionID, er_Success = False, er_TotalStages = length (plan_Stages plan),
      er_TotalJobs = countTotalJobs plan, er_CompletedJobs = 0, er_FailedJobs = 0, er_Stages = []\<rparr>"

text \<open>
  C8 as the specification states it, for an approval gate that answers each stage with
  a decision and maybe an error: when a stage requires approval, approvals are not
  skipped and the gate does not answer with a plain approval, the run is failed and no
  handler is called for a job of that stage. This definition follows the
  specification's words; the code has no gate, so the gate is an argument of the
  statement only.
\<close>

definition approval_gate_claim ::
  "(Stage \<Rightarrow> bool \<times> string option) \<Rightarrow> Plan \<Rightarrow> ExecuteOptions \<Rightarrow>
   (ExecutionResult \<times> go_error option \<times> event list) option \<Rightarrow> bool" where
  "approval_gate_claim gate plan options run =
     (\<forall>stage \<in> set (plan_Stages plan).
        stage_RequireApproval stage \<and> \<not> SkipApproval options \<and> gate stage \<noteq> (True, None) \<longrightarrow>
        (case run of
           None \<Rightarrow> False
         | Some (result, err, evs) \<Rightarrow>
             \<not> er_Success result \<and>
             (\<forall>job \<in> set (stage_Jobs stage). \<forall>e \<in> job_calls job. e \<notin> set evs)))"

subsection \<open>Concrete handlers, jobs and plans\<close>

text \<open>
  Two handlers for the examples: \<open>echo_plugin\<close> accepts every configuration and
  succeeds, returning the configuration it was given as its data; \<open>failing_plugin\<close>
  accepts every configuration and fails with the error \<^verbatim>\<open>boom\<close>.
\<close>

definition echo_plugin :: Plugin where
  "echo_plugin =
     \<lparr>plg_Validate = (\<lambda>ctx cfg. None),
      plg_Execute = (\<lambda>ctx cfg. Inr \<lparr>res_Success = True, res_Data = cfg,
                       res_Message = ''done'', res_ExecutionID = ctx_executionID ctx\<rparr>)\<rparr>"

definition failing_plugin :: Plugin where
  "failing_plugin =
     \<lparr>plg_Validate = (\<lambda>ctx cfg. None), plg_Execute = (\<lambda>ctx cfg. Inl ''boom'')\<rparr>"

definition demo_registry :: registry where
  "demo_registry = [''echo'' \<mapsto> echo_plugin, ''fail'' \<mapsto> failing_plugin]"

definition demo_job :: "string \<Rightarrow> string \<Rightarrow> string list \<Rightarrow> Job" where
  "demo_job name type deps =
     \<lparr>job_Name = name, job_Type = type, job_DependsOn = deps, job_Timeout = [],
      job_Retries = 0, job_Config = [(''port'', VString ''${port}'')]\<rparr>"

definition demo_stage :: "string \<Rightarrow> bool \<Rightarrow> Job list \<Rightarrow> Stage" where
  "demo_stage name approval js =
     \<lparr>stage_Name = name, stage_Description = [], stage_RequireApproval = approval,
      stage_Approvers = [], stage_Jobs = js\<rparr>"

definition demo_ctx :: Ctx where
  "demo_ctx = \<lparr>ctx_executionID = ''run-1'', ctx_variables = Some [(''port'', VInt 8080)],
               ctx_stageName = None\<rparr>"



definition graph_BC :: JobGraph where
  "graph_BC = buildDependencyGraph [demo_job ''B'' ''fail'' [], demo_job ''C'' ''echo'' []]"

text \<open>The job results of \<open>B\<close> and \<open>C\<close> under the two handlers.\<close>

definition result_B :: JobResult where
  "result_B = \<lparr>jr_Name = ''B'', jr_Type = ''fail'', jr_Success = False,
                jr_Message = ''Failed to execute job: boom'', jr_Data = []\<rparr>"

definition result_C :: JobResult where
  "result_C = \<lparr>jr_Name = ''C'', jr_Type = ''echo'', jr_Success = True,
                jr_Message = ''done'', jr_Data = [(''port'', VString ''${port}'')]\<rparr>"



definition run_recorded :: "(string option \<times> JobGraph \<times> StageResult \<times> event list) option \<Rightarrow> string list" where
  "run_recorded r = (case r of None \<Rightarrow> [] | Some (err, g, sr, evs) \<Rightarrow> map jr_Name (sr_Jobs sr))"

definition run_events :: "(string option \<times> JobGraph \<times> StageResult \<times> event list) option \<Rightarrow> event list" where
  "run_events r = (case r of None \<Rightarrow> [] | Some (err, g, sr, evs) \<Rightarrow> evs)"

text \<open>Options of a real run and of a dry run, both with automatic rollback.\<close>

definition real_run :: ExecuteOptions where
  "real_run = \<lparr>AutoRollback = True, SkipApproval = False, DryRun = False\<rparr>"

definition dry_run :: ExecuteOptions where
  "dry_run = \<lparr>AutoRollback = True, SkipApproval = False, DryRun = True\<rparr>"

text \<open>
  Four plans. \<open>plan_echo\<close> has one stage, which requires approval, with one job.
  \<open>plan_failing\<close> has three stages, the second of which fails at job \<open>B\<close>, and a
  rollback section of two stages, the first of which fails. \<open>plan_cyclic\<close> has one
  stage whose only job depends on itself, and a rollback section of one stage. All
  jobs carry the configuration \<open>demo_config\<close>, with a reference to the plan variable
  \<^verbatim>\<open>port\<close>.
\<close>

definition demo_config :: config where
  "demo_config = [(''port'', VString ''${port}'')]"

definition plan_echo :: Plan where
  "plan_echo =
     \<lparr>plan_Variables = [(''port'', VInt 8080)],
      plan_Stages = [demo_stage ''deploy'' True [demo_job ''A'' ''echo'' []]],
      plan_Rollback = None\<rparr>"

definition demo_rollback :: Rollback where
  "demo_rollback =
     \<lparr>rollback_Stages =
        [demo_stage ''undo-deploy'' False [demo_job ''X'' ''fail'' []],
         demo_stage ''undo-build'' False [demo_job ''Y'' ''echo'' []]]\<rparr>"

definition plan_failing :: Plan where
  "plan_failing =
     \<lparr>plan_Variables = [(''port'', VInt 8080)],
      plan_Stages =
        [demo_stage ''build'' False [demo_job ''A'' ''echo'' []],
         demo_stage ''deploy'' False
           [demo_job ''A'' ''echo'' [], demo_job ''B'' ''fail'' [''A''], demo_job ''C'' ''echo'' [''A'']],
         demo_stage ''verify'' False [demo_job ''A'' ''echo'' []]],
      plan_Rollback = Some demo_rollback\<rparr>"

definition plan_cyclic :: Plan where
  "plan_cyclic =
     \<lparr>plan_Variables = [(''port'', VInt 8080)],
      plan_Stages = [demo_stage ''deploy'' False [demo_job ''A'' ''echo'' [''A'']]],
      plan_Rollback = Some \<lparr>rollback_Stages =
        [demo_stage ''undo-build'' False [demo_job ''Y'' ''echo'' []]]\<rparr>\<rparr>"

text \<open>The results and events of the runs of these plans, written out.\<close>

definition result_A :: JobResult where
  "result_A = \<lparr>jr_Name = ''A'', jr_Type = ''echo'', jr_Success = True,
                jr_Message = ''done'', jr_Data = [(''port'', VString ''${port}'')]\<rparr>"

definition failing_result :: ExecutionResult where
  "failing_result =
     \<lparr>er_ID = ''run-1'', er_Success = False, er_TotalStages = 3, er_TotalJobs = 5,
      er_CompletedJobs = 2, er_FailedJobs = 1,
      er_Stages =
        [\<lparr>sr_Name = ''build'', sr_Success = True, sr_Jobs = [result_A]\<rparr>,
         \<lparr>sr_Name = ''deploy'', sr_Success = False, sr_Jobs = [result_A, result_B]\<rparr>]\<rparr>"

definition failing_forward_events :: "event list" where
  "failing_forward_events =
     [Printed ''Executing job: A (type: echo)'',
      ValidateCalled ''echo'' demo_config,
      ExecuteCalled ''echo'' demo_config,
      Printed ''Stage build completed successfully.'',
      Printed ''Executing job: A (type: echo)'',
      ValidateCalled ''echo'' demo_config,
      ExecuteCalled ''echo'' demo_config,
      Printed ''Executing job: B (type: fail)'',
      ValidateCalled ''fail'' demo_config,
      ExecuteCalled ''fail'' demo_config,
      Printed ''Executing job: C (type: echo)'',
      ValidateCalled ''echo'' demo_config,
      ExecuteCalled ''echo'' demo_config]"

definition demo_rollback_events :: "event list" where
  "demo_rollback_events =
     [Printed ''Starting rollback execution...'',
      Printed ''Executing job: X (type: fail)'',
      ValidateCalled ''fail'' demo_config,
      ExecuteCalled ''fail'' demo_config,
      Printed ''Rollback stage undo-deploy failed: job X failed: Failed to execute job: boom'',
      Printed ''Executing job: Y (type: echo)'',
      ValidateCalled ''echo'' demo_config,
      ExecuteCalled ''echo'' demo_config,
      Printed ''Rollback execution completed'']"

definition cyclic_result :: ExecutionResult where
  "cyclic_result =
     \<lparr>er_ID = ''run-1'', er_Success = False, er_TotalStages = 1, er_TotalJobs = 1,
      er_CompletedJobs = 0, er_FailedJobs = 0,
      er_Stages = [\<lparr>sr_Name = ''deploy'', sr_Success = False, sr_Jobs = []\<rparr>]\<rparr>"

definition cyclic_rollback_events :: "event list" where
  "cyclic_rollback_events =
     [Printed ''Starting rollback execution...'',
      Printed ''Executing job: Y (type: echo)'',
      ValidateCalled ''echo'' demo_config,
      ExecuteCalled ''echo'' demo_config,
      Printed ''Rollback execution completed'']"

definition echo_result :: ExecutionResult where
  "echo_result =
     \<lparr>er_ID = ''run-1'', er_Success = True, er_TotalStages = 1, er_TotalJobs = 1,
      er_CompletedJobs = 1, er_FailedJobs = 0,
      er_Stages = [\<lparr>sr_Name = ''deploy'', sr_Success = True, sr_Jobs = [result_A]\<rparr>]\<rparr>"

definition echo_events :: "event list" where
  "echo_events =
     [Printed ''Stage deploy requires approval. Waiting for approval...'',
      Printed ''Stage deploy approved.'',
      Printed ''Executing job: A (type: echo)'',
      ValidateCalled ''echo'' demo_config,
      ExecuteCalled ''echo'' demo_config,
      Printed ''Stage deploy completed successfully.'']"

section \<open>Lemmas\<close>

subsection \<open>Resolver\<close>

lemma walk_parts_Some: "value_at parts cur = Some v \<Longrightarrow> walk_parts path parts cur = Inr v"
  by (induction parts cur rule: value_at.induct) (auto split: option.splits)

lemma walk_parts_None:
  "value_at parts cur = None \<Longrightarrow>
   walk_parts path parts cur = Inl (RefPathNotFound path) \<or>
   walk_parts path parts cur = Inl (InvalidRefPath path)"
  by (induction parts cur rule: value_at.induct) (auto split: option.splits)

lemma match_here_whole:
  assumes "p \<noteq> []" "CHR ''}'' \<notin> set p"
  shows "match_here (whole_reference p) = Some (length p + 3)"
proof -
  have "takeWhile (\<lambda>c. c \<noteq> CHR ''}'') (p @ ''}'') = p"
    using assms(2) by (induction p) auto
  then show ?thesis using assms(1)
    by (simp add: match_here_def whole_reference_def)
qed

lemma resolveString_whole:
  assumes "p \<noteq> []" "CHR ''}'' \<notin> set p"
  shows "resolveString Sprintf (whole_reference p) ctx = resolvePath p ctx"
proof -
  have m: "MatchString (whole_reference p)"
    using match_here_whole[OF assms] by (cases "whole_reference p") (auto simp: whole_reference_def)
  have pre: "HasPrefix (whole_reference p) ''${''"
    by (simp add: HasPrefix_def whole_reference_def)
  have suf: "HasSuffix (whole_reference p) ''}''"
    by (simp add: HasSuffix_def whole_reference_def)
  have sl: "slice (whole_reference p) 2 (length (whole_reference p) - 1) = p"
    by (simp add: slice_def whole_reference_def)
  show ?thesis
    unfolding resolveString_def using m pre suf sl
    by (simp add: Let_def split: sum.splits)
qed

text \<open>
  A string on which \<^verbatim>\<open>resolveString\<close> fails makes the resolution of every value,
  mapping and list fail in which it occurs.
\<close>

lemma occurs_in_fails:
  "resolveString Sprintf s ctx = Inl e \<Longrightarrow> occurs_in s v \<Longrightarrow>
     \<exists>err. resolveValue Sprintf v ctx = Inl err"
  "resolveString Sprintf s ctx = Inl e \<Longrightarrow> occurs_in_map s cfg \<Longrightarrow>
     \<exists>err. ResolveValues Sprintf cfg ctx = Inl err"
  "resolveString Sprintf s ctx = Inl e \<Longrightarrow> occurs_in_slice s xs \<Longrightarrow>
     \<exists>err. resolveSlice Sprintf i xs ctx = Inl err"
proof (induction s v and s cfg and s xs arbitrary: and and i
    rule: occurs_in_occurs_in_map_occurs_in_slice.induct)
  case (3 s xs)
  then obtain err where "resolveSlice Sprintf 0 xs ctx = Inl err" by fastforce
  then show ?case by simp
next
  case (8 s key v rest)
  then show ?case by (auto split: sum.splits)
next
  case (10 s item items)
  show ?case
  proof (cases "occurs_in s item")
    case True
    then obtain err where "resolveValue Sprintf item ctx = Inl err"
      using 10 by blast
    then show ?thesis by simp
  next
    case False
    then have "occurs_in_slice s items" using 10(4) by simp
    then obtain err where "resolveSlice Sprintf (Suc i) items ctx = Inl err"
      using 10(2)[OF 10(3)] by blast
    then show ?thesis by (simp split: sum.splits)
  qed
qed (auto split: sum.splits)

text \<open>
  Where the whole-reference test of \<^verbatim>\<open>resolveString\<close> fails, the string is
  substituted leniently and no error is returned; the two examples of the
  specification evaluate as it says.
\<close>

lemma resolveString_lenient:
  assumes "\<not> (HasPrefix v ''${'' \<and> HasSuffix v ''}'')"
  shows "\<exists>s. resolveString Sprintf v ctx = Inr (VString s)"
  using assms by (auto simp: resolveString_def)

lemma resolveString_embedded_resolved:
  "resolveString (\<lambda>v. ''42'') ''port=${a.b}'' [(''a'', VMap [(''b'', VInt 42)])]
     = Inr (VString ''port=42'')"
  by code_simp

lemma resolveString_embedded_unresolved:
  "resolveString (\<lambda>v. ''42'') ''port=${missing.x}'' [(''a'', VMap [(''b'', VInt 42)])]
     = Inr (VString ''port=${missing.x}'')"
  by code_simp

subsection \<open>Cycle detection\<close>

lemma dep_edges_iff: "(a, b) \<in> dep_edges g \<longleftrightarrow> b \<in> set (index_list (dependencies g) a)"
  by (simp add: dep_edges_def)

lemma dfs_sound:
  "(\<forall>r\<in>recStack. (r, node) \<in> (dep_edges g)\<^sup>*) \<Longrightarrow>
     hasCyclesDFS g node visited recStack = (found, v', r') \<Longrightarrow>
     (found \<longrightarrow> \<not> acyclic (dep_edges g)) \<and> (\<not> found \<longrightarrow> r' \<subseteq> recStack)"
  "(\<forall>d\<in>set ds. \<forall>r\<in>recStack. (r, d) \<in> (dep_edges g)\<^sup>+) \<Longrightarrow>
     range_deps g ds visited recStack = (found, v', r') \<Longrightarrow>
     (found \<longrightarrow> \<not> acyclic (dep_edges g)) \<and> (\<not> found \<longrightarrow> r' \<subseteq> recStack)"
proof (induction g node visited recStack and g ds visited recStack
       arbitrary: found v' r' and found v' r' rule: hasCyclesDFS_range_deps.induct)
  case (1 g node visited recStack)
  obtain f1 v1 r1 where eq:
    "range_deps g (index_list (dependencies g) node) (insert node visited) (insert node recStack) = (f1, v1, r1)"
    by (metis prod_cases3)
  have pre: "\<forall>d\<in>set (index_list (dependencies g) node). \<forall>r\<in>insert node recStack. (r, d) \<in> (dep_edges g)\<^sup>+"
  proof (intro ballI)
    fix d r assume d: "d \<in> set (index_list (dependencies g) node)" and r: "r \<in> insert node recStack"
    have e: "(node, d) \<in> dep_edges g" using d by (simp add: dep_edges_iff)
    have "(r, node) \<in> (dep_edges g)\<^sup>*" using r 1(2) by auto
    then show "(r, d) \<in> (dep_edges g)\<^sup>+" using e by (rule rtrancl_into_trancl1)
  qed
  from 1(1)[OF pre eq] 1(3) eq show ?case
    by (auto simp: hasCyclesDFS.simps split: if_splits)
next
  case (2 g visited recStack)
  then show ?case by simp
next
  case (3 g dep rest visited recStack)
  show ?case
  proof (cases "dep \<notin> visited")
    case True
    obtain f1 v1 r1 where eq: "hasCyclesDFS g dep visited recStack = (f1, v1, r1)"
      by (metis prod_cases3)
    have pre1: "\<forall>r\<in>recStack. (r, dep) \<in> (dep_edges g)\<^sup>*" using 3(4) by auto
    note h = 3(1)[OF True pre1 eq]
    show ?thesis
    proof (cases f1)
      case True
      then show ?thesis using h eq 3(5) \<open>dep \<notin> visited\<close> by auto
    next
      case False
      have sub: "r1 \<subseteq> recStack" using h False by simp
      have pre2: "\<forall>d\<in>set rest. \<forall>r\<in>r1. (r, d) \<in> (dep_edges g)\<^sup>+" using 3(4) sub by auto
      have eq2: "range_deps g rest v1 r1 = (found, v', r')"
        using 3(5) eq False \<open>dep \<notin> visited\<close> by simp
      from 3(2)[OF True eq[symmetric] refl False pre2 eq2] sub show ?thesis by auto
    qed
  next
    case False
    show ?thesis
    proof (cases "dep \<in> recStack")
      case True
      then have "(dep, dep) \<in> (dep_edges g)\<^sup>+" using 3(4) by auto
      then have "\<not> acyclic (dep_edges g)" by (auto simp: acyclic_def)
      then show ?thesis using 3(5) False True by auto
    next
      case nr: False
      have pre2: "\<forall>d\<in>set rest. \<forall>r\<in>recStack. (r, d) \<in> (dep_edges g)\<^sup>+" using 3(4) by auto
      have eq2: "range_deps g rest visited recStack = (found, v', r')"
        using 3(5) False nr by simp
      from 3(3)[OF _ nr pre2 eq2] False show ?thesis by auto
    qed
  qed
qed

lemma range_jobs_sound:
  "range_jobs g names visited {} \<Longrightarrow> \<not> acyclic (dep_edges g)"
proof (induction names arbitrary: visited)
  case Nil
  then show ?case by simp
next
  case (Cons name rest)
  show ?case
  proof (cases "name \<notin> visited")
    case True
    obtain f1 v1 r1 where eq: "hasCyclesDFS g name visited {} = (f1, v1, r1)"
      by (metis prod_cases3)
    have h: "(f1 \<longrightarrow> \<not> acyclic (dep_edges g)) \<and> (\<not> f1 \<longrightarrow> r1 \<subseteq> {})"
      using dfs_sound(1)[OF _ eq] by simp
    show ?thesis
    proof (cases f1)
      case True
      then show ?thesis using h by simp
    next
      case False
      then have "r1 = {}" using h by simp
      then show ?thesis using Cons.prems Cons.IH[of v1] eq False \<open>name \<notin> visited\<close> by simp
    qed
  next
    case False
    then show ?thesis using Cons by simp
  qed
qed

lemma HasCycles_sound: "HasCycles g \<Longrightarrow> \<not> acyclic (dep_edges g)"
  unfolding HasCycles_def by (rule range_jobs_sound)

lemma closed_rtrancl:
  assumes "\<forall>b\<in>B. set (index_list (dependencies g) b) \<subseteq> B"
    and "(x, y) \<in> (dep_edges g)\<^sup>*" and "x \<in> B"
  shows "y \<in> B"
  using assms(2,3,1)
  by (induction rule: rtrancl_induct) (auto simp: dep_edges_iff)

lemma dfs_inv_finish:
  assumes inv: "dfs_inv g v1 (insert node rs)"
    and succ: "set (index_list (dependencies g) node) \<subseteq> v1 - insert node rs"
    and nin: "node \<in> v1"
  shows "dfs_inv g v1 (rs - {node})"
proof -
  let ?B = "v1 - insert node rs"
  have closed: "\<forall>b\<in>?B. set (index_list (dependencies g) b) \<subseteq> ?B"
    using inv by (auto simp: dfs_inv_def)
  have nocyc: "(node, node) \<notin> (dep_edges g)\<^sup>+"
  proof
    assume "(node, node) \<in> (dep_edges g)\<^sup>+"
    then obtain d where d: "(node, d) \<in> dep_edges g" and r: "(d, node) \<in> (dep_edges g)\<^sup>*"
      by (meson tranclD)
    have "d \<in> ?B" using d succ by (auto simp: dep_edges_iff)
    then have "node \<in> ?B" using closed_rtrancl[OF closed r] by simp
    then show False by simp
  qed
  have eq: "v1 - (rs - {node}) = insert node ?B" using nin by auto
  show ?thesis
    unfolding dfs_inv_def eq
    using inv succ nocyc nin by (auto simp: dfs_inv_def)
qed

lemma dfs_complete:
  "dfs_inv g visited recStack \<Longrightarrow> node \<notin> visited \<Longrightarrow>
     hasCyclesDFS g node visited recStack = (False, v', r') \<Longrightarrow>
     r' = recStack \<and> visited \<subseteq> v' \<and> node \<in> v' \<and> dfs_inv g v' recStack"
  "dfs_inv g visited recStack \<Longrightarrow>
     range_deps g ds visited recStack = (False, v', r') \<Longrightarrow>
     r' = recStack \<and> visited \<subseteq> v' \<and> dfs_inv g v' recStack \<and> set ds \<subseteq> v' - recStack"
proof (induction g node visited recStack and g ds visited recStack
       arbitrary: v' r' and v' r' rule: hasCyclesDFS_range_deps.induct)
  case (1 g node visited recStack)
  obtain f1 v1 r1 where eq:
    "range_deps g (index_list (dependencies g) node) (insert node visited) (insert node recStack) = (f1, v1, r1)"
    by (metis prod_cases3)
  have f1: "\<not> f1" and v: "v' = v1" and r: "r' = r1 - {node}"
    using 1(4) eq by (auto simp: hasCyclesDFS.simps split: if_splits)
  have nr: "node \<notin> recStack" using 1(2,3) by (auto simp: dfs_inv_def)
  have inv0: "dfs_inv g (insert node visited) (insert node recStack)"
  proof -
    have "insert node visited - insert node recStack = visited - recStack"
      using 1(3) by auto
    then show ?thesis using 1(2) by (auto simp: dfs_inv_def)
  qed
  have eq': "range_deps g (index_list (dependencies g) node) (insert node visited) (insert node recStack) = (False, v1, r1)"
    using eq f1 by simp
  from 1(1)[OF inv0 eq'] have
    r1: "r1 = insert node recStack" and sub: "insert node visited \<subseteq> v1"
    and inv1: "dfs_inv g v1 (insert node recStack)"
    and succ: "set (index_list (dependencies g) node) \<subseteq> v1 - insert node recStack"
    by auto
  have "dfs_inv g v1 (recStack - {node})"
    using dfs_inv_finish[OF inv1 succ] sub by auto
  then have "dfs_inv g v1 recStack" using nr by simp
  then show ?case using r1 sub nr v r by auto
next
  case (2 g visited recStack)
  then show ?case by simp
next
  case (3 g dep rest visited recStack)
  show ?case
  proof (cases "dep \<notin> visited")
    case True
    obtain f1 v1 r1 where eq: "hasCyclesDFS g dep visited recStack = (f1, v1, r1)"
      by (metis prod_cases3)
    have f1: "\<not> f1" and eq2: "range_deps g rest v1 r1 = (False, v', r')"
      using 3(5) eq True by (auto split: if_splits)
    have eq': "hasCyclesDFS g dep visited recStack = (False, v1, r1)" using eq f1 by simp
    from 3(1)[OF True 3(4) True eq'] have
      r1: "r1 = recStack" and sub: "visited \<subseteq> v1" and d: "dep \<in> v1" and inv1: "dfs_inv g v1 recStack"
      by auto
    from 3(2)[OF True eq[symmetric] refl f1 inv1[folded r1] eq2] r1 have
      "r' = recStack" "v1 \<subseteq> v'" "dfs_inv g v' recStack" "set rest \<subseteq> v' - recStack"
      by auto
    moreover have "dep \<notin> recStack" using True 3(4) by (auto simp: dfs_inv_def)
    ultimately show ?thesis using sub d by auto
  next
    case False
    then have nr: "dep \<notin> recStack" and eq2: "range_deps g rest visited recStack = (False, v', r')"
      using 3(5) by (auto split: if_splits)
    from 3(3)[OF False nr 3(4) eq2] False nr show ?thesis by auto
  qed
qed

lemma range_jobs_complete:
  "dfs_inv g visited {} \<Longrightarrow> \<not> range_jobs g names visited {} \<Longrightarrow>
   \<exists>v'. dfs_inv g v' {} \<and> visited \<subseteq> v' \<and> set names \<subseteq> v'"
proof (induction names arbitrary: visited)
  case Nil
  then show ?case by auto
next
  case (Cons name rest)
  show ?case
  proof (cases "name \<notin> visited")
    case True
    obtain f1 v1 r1 where eq: "hasCyclesDFS g name visited {} = (f1, v1, r1)"
      by (metis prod_cases3)
    have f1: "\<not> f1" using Cons.prems(2) eq True by (auto split: if_splits)
    have eq': "hasCyclesDFS g name visited {} = (False, v1, r1)" using eq f1 by simp
    from dfs_complete(1)[OF Cons.prems(1) True eq'] have
      r1: "r1 = {}" and sub: "visited \<subseteq> v1" and d: "name \<in> v1" and inv1: "dfs_inv g v1 {}"
      by auto
    have "\<not> range_jobs g rest v1 {}" using Cons.prems(2) eq True f1 r1 by simp
    from Cons.IH[OF inv1 this] obtain v' where "dfs_inv g v' {}" "v1 \<subseteq> v'" "set rest \<subseteq> v'"
      by auto
    then show ?thesis using sub d by auto
  next
    case False
    then have "\<not> range_jobs g rest visited {}" using Cons.prems(2) by simp
    from Cons.IH[OF Cons.prems(1) this] False show ?thesis by auto
  qed
qed

lemma cycle_node_is_target:
  assumes "(n, n) \<in> (dep_edges g)\<^sup>+"
  shows "\<exists>a. n \<in> set (index_list (dependencies g) a) \<and> a \<in> fst ` set (dependencies g)"
proof -
  from assms obtain a where a: "(a, n) \<in> dep_edges g" by (meson tranclE)
  then have m: "n \<in> set (index_list (dependencies g) a)" by (simp add: dep_edges_iff)
  then have "a \<in> fst ` set (dependencies g)"
    using index_list_no_key[of a "dependencies g"] by fastforce
  then show ?thesis using m by auto
qed

lemma HasCycles_complete:
  assumes reg: "deps_registered g" and nc: "\<not> HasCycles g"
  shows "acyclic (dep_edges g)"
proof -
  have "dfs_inv g {} {}" by (simp add: dfs_inv_def)
  from range_jobs_complete[OF this nc[unfolded HasCycles_def]]
  obtain v' where inv: "dfs_inv g v' {}" and names: "set (map fst (jobs g)) \<subseteq> v'" by auto
  show ?thesis
    unfolding acyclic_def
  proof (intro allI notI)
    fix n assume c: "(n, n) \<in> (dep_edges g)\<^sup>+"
    from cycle_node_is_target[OF c] reg have "n \<in> fst ` set (jobs g)"
      unfolding deps_registered_def by blast
    then have "n \<in> v'" using names by auto
    then show False using inv c by (auto simp: dfs_inv_def)
  qed
qed

subsection \<open>The wave loop\<close>

lemma run_job_name [simp]: "jr_Name (fst (run_job reg ctx dryRun job)) = job_Name job"
  by (simp add: run_job_def split: prod.splits)

lemma mark_all_Nil [simp]: "mark_all g [] = g"
  by (simp add: mark_all_def)

lemma append_jobs_Nil [simp]: "append_jobs sr [] = sr"
  by (simp add: append_jobs_def)

lemma mark_all_Cons: "mark_all (MarkCompleted g (jr_Name r)) rs = mark_all g (r # rs)"
  by (simp add: mark_all_def MarkCompleted_def)

lemma append_jobs_Cons: "append_jobs (append_jobs sr [r]) rs = append_jobs sr (r # rs)"
  by (simp add: append_jobs_def)

lemma process_results_eq:
  "process_results rs g sr =
     (case dropWhile jr_Success rs of
        [] \<Rightarrow> (None, mark_all g rs, append_jobs sr rs)
      | failed # later \<Rightarrow>
          (Some (job_failed failed), mark_all g (takeWhile jr_Success rs),
           append_jobs sr (takeWhile jr_Success rs @ [failed])))"
proof (induction rs arbitrary: g sr)
  case Nil
  then show ?case by simp
next
  case (Cons r rs)
  show ?case
  proof (cases "jr_Success r")
    case True
    have step: "process_results (r # rs) g sr =
                process_results rs (MarkCompleted g (jr_Name r)) (append_jobs sr [r])"
      using True by (simp add: append_jobs_def)
    show ?thesis
    proof (cases "dropWhile jr_Success rs")
      case Nil
      then show ?thesis
        unfolding step Cons.IH using True
        by (simp only: dropWhile.simps if_True list.case mark_all_Cons append_jobs_Cons)
    next
      case (Cons f later)
      then show ?thesis
        unfolding step Cons.IH using True
        by (simp only: dropWhile.simps takeWhile.simps if_True list.case mark_all_Cons
            append_jobs_Cons append_Cons)
    qed
  next
    case False
    then show ?thesis by (simp add: job_failed_def append_jobs_def)
  qed
qed

lemma wave_step_ok:
  assumes "readyJobs \<noteq> []"
    and "dropWhile jr_Success (wave_results reg ctx dryRun readyJobs) = []"
  shows "wave_loop reg ctx dryRun readyJobs g sr evs =
           wave_loop reg ctx dryRun
             (GetReadyJobs (mark_all g (wave_results reg ctx dryRun readyJobs)))
             (mark_all g (wave_results reg ctx dryRun readyJobs))
             (append_jobs sr (wave_results reg ctx dryRun readyJobs))
             (evs @ wave_events reg ctx dryRun readyJobs)"
proof -
  have pr: "process_results (wave_results reg ctx dryRun readyJobs) g sr =
              (None, mark_all g (wave_results reg ctx dryRun readyJobs),
               append_jobs sr (wave_results reg ctx dryRun readyJobs))"
    unfolding process_results_eq assms(2) by simp
  show ?thesis
    using assms(1) pr
    by (subst wave_loop.simps) (simp add: wave_results_def wave_events_def)
qed

lemma wave_step_fail:
  assumes "readyJobs \<noteq> []"
    and "dropWhile jr_Success (wave_results reg ctx dryRun readyJobs) = failed # later"
  shows "wave_loop reg ctx dryRun readyJobs g sr evs =
           Some (Some (job_failed failed),
                 mark_all g (takeWhile jr_Success (wave_results reg ctx dryRun readyJobs)),
                 append_jobs sr (takeWhile jr_Success (wave_results reg ctx dryRun readyJobs) @ [failed]),
                 evs @ wave_events reg ctx dryRun readyJobs)"
proof -
  have pr: "process_results (wave_results reg ctx dryRun readyJobs) g sr =
              (Some (job_failed failed),
               mark_all g (takeWhile jr_Success (wave_results reg ctx dryRun readyJobs)),
               append_jobs sr (takeWhile jr_Success (wave_results reg ctx dryRun readyJobs) @ [failed]))"
    unfolding process_results_eq assms(2) by simp
  show ?thesis
    using assms(1) pr
    by (subst wave_loop.simps) (simp add: wave_results_def wave_events_def)
qed

lemma wave_loop_Nil: "wave_loop reg ctx dryRun [] g sr evs = Some (None, g, sr, evs)"
  by (subst wave_loop.simps) simp

lemma mark_all_fields [simp]:
  "jobs (mark_all g rs) = jobs g"
  "dependencies (mark_all g rs) = dependencies g"
  "completed (mark_all g rs) = completed g \<union> jr_Name ` set rs"
  by (simp_all add: mark_all_def)

lemma graph_inv_mark_all [simp]: "graph_inv (mark_all g rs) = graph_inv g"
  by (simp add: graph_inv_def)

lemma append_jobs_append: "append_jobs (append_jobs sr xs) ys = append_jobs sr (xs @ ys)"
  by (simp add: append_jobs_def)

lemma ready_in_jobs:
  "job \<in> set (GetReadyJobs g) \<Longrightarrow> \<exists>name. (name, job) \<in> set (jobs g) \<and> name \<notin> completed g"
  by (auto simp: GetReadyJobs_def)

lemma ready_names:
  assumes "graph_inv g"
  shows "map job_Name (GetReadyJobs g) =
         map fst (filter (\<lambda>(name, job). name \<notin> completed g \<and>
            list_all (\<lambda>dep. dep \<in> completed g) (index_list (dependencies g) name)) (jobs g))"
  using assms unfolding GetReadyJobs_def graph_inv_def
  by (auto simp: map_eq_conv)

lemma ready_names_distinct: "graph_inv g \<Longrightarrow> distinct (map job_Name (GetReadyJobs g))"
  unfolding ready_names by (simp add: graph_inv_def distinct_map_filter)

lemma wave_results_names [simp]:
  "map jr_Name (wave_results reg ctx dryRun readyJobs) = map job_Name readyJobs"
  by (simp add: wave_results_def)

lemma filter_filter_length_less:
  assumes "\<And>x. Q x \<Longrightarrow> P x" and "x \<in> set xs" and "P x" and "\<not> Q x"
  shows "length (filter Q xs) < length (filter P xs)"
proof -
  have "filter Q xs = filter Q (filter P xs)"
    using assms(1) by (induction xs) auto
  moreover have "length (filter Q (filter P xs)) < length (filter P xs)"
    using assms(2-4) by (intro length_filter_less[of x]) auto
  ultimately show ?thesis by simp
qed

lemma pending_decreases:
  assumes inv: "graph_inv g" and ne: "GetReadyJobs g \<noteq> []"
  shows "length (pending (mark_all g (wave_results reg ctx dryRun (GetReadyJobs g)))) < length (pending g)"
proof -
  from ne obtain job where j: "job \<in> set (GetReadyJobs g)" by (cases "GetReadyJobs g") auto
  then obtain name where n: "(name, job) \<in> set (jobs g)" "name \<notin> completed g"
    using ready_in_jobs by blast
  have nm: "job_Name job = name" using inv n(1) by (auto simp: graph_inv_def)
  have m: "name \<in> jr_Name ` set (wave_results reg ctx dryRun (GetReadyJobs g))"
    using j nm by (force simp: wave_results_def)
  show ?thesis
    unfolding pending_def mark_all_fields
  proof (rule filter_filter_length_less[where x = "(name, job)"])
    show "(name, job) \<in> set (jobs g)" by (rule n(1))
    show "case (name, job) of (name, job) \<Rightarrow> name \<notin> completed g" using n(2) by simp
    show "\<not> (case (name, job) of (name, job) \<Rightarrow>
             name \<notin> completed g \<union> jr_Name ` set (wave_results reg ctx dryRun (GetReadyJobs g)))"
      using m by simp
  qed auto
qed


lemma wave_results_subset:
  "set (wave_results reg ctx dryRun (GetReadyJobs g)) \<subseteq>
     (\<lambda>job. fst (run_job reg ctx dryRun job)) ` snd ` set (jobs g)"
  by (auto simp: wave_results_def GetReadyJobs_def)

lemma wave_events_subset:
  "set (wave_events reg ctx dryRun (GetReadyJobs g)) \<subseteq>
     (\<Union>job \<in> snd ` set (jobs g). set (snd (run_job reg ctx dryRun job)))"
  by (auto simp: wave_events_def GetReadyJobs_def)

lemma failed_not_completed:
  assumes inv: "graph_inv g"
    and dw: "dropWhile jr_Success (wave_results reg ctx dryRun (GetReadyJobs g)) = failed # later"
  shows "\<not> IsCompleted (mark_all g (takeWhile jr_Success (wave_results reg ctx dryRun (GetReadyJobs g))))"
proof -
  let ?rs = "wave_results reg ctx dryRun (GetReadyJobs g)"
  have split: "?rs = takeWhile jr_Success ?rs @ failed # later"
    using dw takeWhile_dropWhile_id[of jr_Success ?rs] by simp
  have "distinct (map jr_Name ?rs)" using ready_names_distinct[OF inv] by simp
  then have "distinct (map jr_Name (takeWhile jr_Success ?rs @ failed # later))"
    using split by simp
  then have notin: "jr_Name failed \<notin> jr_Name ` set (takeWhile jr_Success ?rs)" by auto
  have "failed \<in> set ?rs" using split by (metis in_set_conv_decomp)
  then obtain job where j: "job \<in> set (GetReadyJobs g)" and f: "failed = fst (run_job reg ctx dryRun job)"
    by (auto simp: wave_results_def)
  from j obtain name where n: "(name, job) \<in> set (jobs g)" "name \<notin> completed g"
    using ready_in_jobs by blast
  have "job_Name job = name" using inv n(1) by (auto simp: graph_inv_def)
  then have "jr_Name failed = name" using f by simp
  then have "name \<notin> completed (mark_all g (takeWhile jr_Success ?rs))"
    using notin n(2) by simp
  then show ?thesis using n(1) by (auto simp: IsCompleted_def list_all_iff)
qed

lemma wave_loop_result:
  assumes "graph_inv g"
  shows "\<exists>err g' new evs'.
           wave_loop reg ctx dryRun (GetReadyJobs g) g sr evs = Some (err, g', append_jobs sr new, evs @ evs') \<and>
           wave_post reg ctx dryRun g err g' new evs'"
  using assms
proof (induction "length (pending g)" arbitrary: g sr evs rule: less_induct)
  case less
  let ?ready = "GetReadyJobs g"
  let ?rs = "wave_results reg ctx dryRun ?ready"
  let ?we = "wave_events reg ctx dryRun ?ready"
  show ?case
  proof (cases "?ready = []")
    case True
    have "wave_loop reg ctx dryRun ?ready g sr evs = Some (None, g, append_jobs sr [], evs @ [])"
      unfolding True by (simp add: wave_loop_Nil)
    moreover have "wave_post reg ctx dryRun g None g [] []"
      using True by (simp add: wave_post_def)
    ultimately show ?thesis by blast
  next
    case False
    show ?thesis
    proof (cases "dropWhile jr_Success ?rs")
      case Nil
      let ?g1 = "mark_all g ?rs"
      have allok: "list_all jr_Success ?rs" using Nil by (simp add: list_all_iff)
      have step: "wave_loop reg ctx dryRun ?ready g sr evs =
                  wave_loop reg ctx dryRun (GetReadyJobs ?g1) ?g1 (append_jobs sr ?rs) (evs @ ?we)"
        by (rule wave_step_ok[OF False Nil])
      have less': "length (pending ?g1) < length (pending g)"
        by (rule pending_decreases[OF less.prems False])
      have inv1: "graph_inv ?g1" using less.prems by simp
      from less.hyps[OF less' inv1, of "append_jobs sr ?rs" "evs @ ?we"]
      obtain err g' new1 evs1 where
        r: "wave_loop reg ctx dryRun (GetReadyJobs ?g1) ?g1 (append_jobs sr ?rs) (evs @ ?we) =
              Some (err, g', append_jobs (append_jobs sr ?rs) new1, (evs @ ?we) @ evs1)"
        and p: "wave_post reg ctx dryRun ?g1 err g' new1 evs1"
        by blast
      have eq: "wave_loop reg ctx dryRun ?ready g sr evs =
                  Some (err, g', append_jobs sr (?rs @ new1), evs @ (?we @ evs1))"
        unfolding step r by (simp add: append_jobs_append)
      have post: "wave_post reg ctx dryRun g err g' (?rs @ new1) (?we @ evs1)"
      proof (cases err)
        case None
        then show ?thesis
          using p allok wave_results_subset[of reg ctx dryRun g] wave_events_subset[of reg ctx dryRun g]
          by (auto simp: wave_post_def)
      next
        case (Some e)
        with p obtain ok failed where
          f: "new1 = ok @ [failed]" "list_all jr_Success ok" "\<not> jr_Success failed" "e = job_failed failed"
          by (auto simp: wave_post_def)
        have "?rs @ new1 = (?rs @ ok) @ [failed]" "list_all jr_Success (?rs @ ok)"
          using f allok by simp_all
        then have "\<exists>ok' failed'. ?rs @ new1 = ok' @ [failed'] \<and> list_all jr_Success ok' \<and>
                     \<not> jr_Success failed' \<and> e = job_failed failed'"
          using f(3,4) by blast
        then show ?thesis
          using Some p wave_results_subset[of reg ctx dryRun g] wave_events_subset[of reg ctx dryRun g]
          by (auto simp: wave_post_def)
      qed
      show ?thesis using eq post by blast
    next
      case (Cons failed later)
      let ?ok = "takeWhile jr_Success ?rs"
      have eq: "wave_loop reg ctx dryRun ?ready g sr evs =
                  Some (Some (job_failed failed), mark_all g ?ok, append_jobs sr (?ok @ [failed]), evs @ ?we)"
        by (rule wave_step_fail[OF False Cons])
      have split: "?rs = ?ok @ failed # later"
        using Cons takeWhile_dropWhile_id[of jr_Success ?rs] by simp
      have nf: "\<not> jr_Success failed"
        using Cons by (metis hd_dropWhile list.sel(1) list.distinct(1))
      have okall: "list_all jr_Success ?ok"
        by (auto simp: list_all_iff dest: set_takeWhileD)
      have sub: "set (?ok @ [failed]) \<subseteq> set ?rs"
        using split by (metis Un_upper1 append.assoc append_Cons append_Nil set_append)
      have nc: "\<not> IsCompleted (mark_all g ?ok)"
        by (rule failed_not_completed[OF less.prems Cons])
      have "wave_post reg ctx dryRun g (Some (job_failed failed)) (mark_all g ?ok) (?ok @ [failed]) ?we"
        unfolding wave_post_def
        using nf okall sub nc wave_results_subset[of reg ctx dryRun g]
          wave_events_subset[of reg ctx dryRun g]
        by (auto simp del: set_append)
      then show ?thesis using eq by blast
    qed
  qed
qed

subsection \<open>Building and executing a graph\<close>

lemma update_set: "x \<in> set (AList.update k v al) \<Longrightarrow> x = (k, v) \<or> x \<in> set al"
  by (induction al) (auto split: if_splits)

lemma jobs_AddDependency [simp]: "jobs (AddDependency g a b) = jobs g"
  by (simp add: AddDependency_def)

lemma jobs_add_dependencies [simp]: "jobs (add_dependencies g name ds) = jobs g"
  by (induction ds arbitrary: g) simp_all

lemma completed_AddDependency [simp]: "completed (AddDependency g a b) = completed g"
  by (simp add: AddDependency_def)

lemma completed_add_dependencies [simp]: "completed (add_dependencies g name ds) = completed g"
  by (induction ds arbitrary: g) simp_all

lemma jobs_foldl_add_dependencies [simp]:
  "jobs (foldl (\<lambda>g job. add_dependencies g (job_Name job) (job_DependsOn job)) g js) = jobs g"
  by (induction js arbitrary: g) simp_all

lemma jobs_AddJob: "jobs (AddJob g job) = AList.update (job_Name job) job (jobs g)"
  by (simp add: AddJob_def)

lemma graph_inv_AddJob: "graph_inv g \<Longrightarrow> graph_inv (AddJob g job)"
  unfolding graph_inv_def jobs_AddJob
  by (auto simp: distinct_update dest: update_set)

lemma graph_inv_foldl_AddJob: "graph_inv g \<Longrightarrow> graph_inv (foldl AddJob g js)"
  by (induction js arbitrary: g) (simp_all add: graph_inv_AddJob)

lemma jobs_foldl_AddJob:
  "snd ` set (jobs (foldl AddJob g js)) \<subseteq> snd ` set (jobs g) \<union> set js"
proof (induction js arbitrary: g)
  case Nil
  then show ?case by simp
next
  case (Cons job js)
  have "snd ` set (jobs (AddJob g job)) \<subseteq> insert job (snd ` set (jobs g))"
    unfolding jobs_AddJob by (auto dest: update_set)
  moreover have "snd ` set (jobs (foldl AddJob (AddJob g job) js))
                   \<subseteq> snd ` set (jobs (AddJob g job)) \<union> set js"
    by (rule Cons)
  ultimately show ?case by (simp del: image_set) blast
qed

lemma graph_inv_build: "graph_inv (buildDependencyGraph js)"
proof -
  have "graph_inv NewJobGraph" by (simp add: graph_inv_def NewJobGraph_def)
  then have "graph_inv (foldl AddJob NewJobGraph js)" by (rule graph_inv_foldl_AddJob)
  then show ?thesis by (simp add: graph_inv_def buildDependencyGraph_def)
qed

lemma jobs_build: "snd ` set (jobs (buildDependencyGraph js)) \<subseteq> set js"
  using jobs_foldl_AddJob[of NewJobGraph js]
  by (simp add: buildDependencyGraph_def NewJobGraph_def)

lemma ExecuteGraph_result:
  assumes "graph_inv g"
  shows "\<exists>err g' new evs.
           ExecuteGraph reg ctx g sr dryRun = Some (err, g', append_jobs sr new, evs) \<and>
           set new \<subseteq> (\<lambda>job. fst (run_job reg ctx dryRun job)) ` snd ` set (jobs g) \<and>
           set evs \<subseteq> (\<Union>job \<in> snd ` set (jobs g). set (snd (run_job reg ctx dryRun job))) \<and>
           (HasCycles g \<longrightarrow> err = Some ''dependency cycle detected in job graph'' \<and> new = [] \<and> evs = []) \<and>
           (\<not> HasCycles g \<longrightarrow> wave_post reg ctx dryRun g err g' new evs)"
proof (cases "HasCycles g")
  case True
  have "ExecuteGraph reg ctx g sr dryRun =
          Some (Some ''dependency cycle detected in job graph'', g, append_jobs sr [], [])"
    using True by (simp add: ExecuteGraph_def)
  then show ?thesis using True by fastforce
next
  case False
  from wave_loop_result[OF assms, of reg ctx dryRun sr "[]"]
  obtain err g' new evs' where
    w: "wave_loop reg ctx dryRun (GetReadyJobs g) g sr [] = Some (err, g', append_jobs sr new, [] @ evs')"
    and p: "wave_post reg ctx dryRun g err g' new evs'"
    by blast
  have "ExecuteGraph reg ctx g sr dryRun = Some (err, g', append_jobs sr new, evs')"
    using False w by (simp add: ExecuteGraph_def)
  moreover have "set new \<subseteq> (\<lambda>job. fst (run_job reg ctx dryRun job)) ` snd ` set (jobs g)"
    and "set evs' \<subseteq> (\<Union>job \<in> snd ` set (jobs g). set (snd (run_job reg ctx dryRun job)))"
    using p by (simp_all add: wave_post_def)
  ultimately show ?thesis using False p by blast
qed



subsection \<open>The orchestrator\<close>

lemma run_job_dry [simp]: "snd (run_job reg ctx True job) = []"
  by (simp add: run_job_def)

lemma run_job_calls:
  assumes "e \<in> set (snd (run_job reg ctx dryRun job))" and "is_handler_call e"
  shows "e = ValidateCalled (job_Type job) (job_Config job) \<or>
         e = ExecuteCalled (job_Type job) (job_Config job)"
  using assms
  by (auto simp: run_job_def executeJob_def ExecutePlugin_def GetPlugin_def Let_def
      split: if_splits option.splits sum.splits prod.splits)

lemma ExecuteGraph_build:
  "\<exists>err g' new evs.
     ExecuteGraph reg ctx (buildDependencyGraph js) sr dryRun = Some (err, g', append_jobs sr new, evs) \<and>
     set evs \<subseteq> (\<Union>job \<in> set js. set (snd (run_job reg ctx dryRun job)))"
proof -
  from ExecuteGraph_result[OF graph_inv_build, of reg ctx js sr dryRun]
  obtain err g' new evs where
    e: "ExecuteGraph reg ctx (buildDependencyGraph js) sr dryRun = Some (err, g', append_jobs sr new, evs)"
    and s: "set evs \<subseteq> (\<Union>job \<in> snd ` set (jobs (buildDependencyGraph js)).
                          set (snd (run_job reg ctx dryRun job)))"
    by blast
  have "set evs \<subseteq> (\<Union>job \<in> set js. set (snd (run_job reg ctx dryRun job)))"
    using s jobs_build[of js] by blast
  then show ?thesis using e by blast
qed

lemma executeStage_total:
  "\<exists>stageErr new evs.
     executeStage reg ctx stage sr options = Some (stageErr, append_jobs sr new, evs) \<and>
     set evs \<subseteq> (\<Union>job \<in> set (stage_Jobs stage).
                    set (snd (run_job reg (ctx\<lparr>ctx_stageName := Some (stage_Name stage)\<rparr>) (DryRun options) job)))"
proof -
  from ExecuteGraph_build[of reg "ctx\<lparr>ctx_stageName := Some (stage_Name stage)\<rparr>" "stage_Jobs stage" sr "DryRun options"]
  obtain err g' new evs where
    "ExecuteGraph reg (ctx\<lparr>ctx_stageName := Some (stage_Name stage)\<rparr>)
        (buildDependencyGraph (stage_Jobs stage)) sr (DryRun options) = Some (err, g', append_jobs sr new, evs)"
    "set evs \<subseteq> (\<Union>job \<in> set (stage_Jobs stage).
                    set (snd (run_job reg (ctx\<lparr>ctx_stageName := Some (stage_Name stage)\<rparr>) (DryRun options) job)))"
    by blast
  then show ?thesis by (simp add: executeStage_def) blast
qed

lemma rollback_loop_eq:
  "rollback_loop reg ctx stages evs =
     Some (evs @ concat (map (rollback_stage_events reg ctx False) stages))"
proof (induction stages arbitrary: evs)
  case Nil
  then show ?case by simp
next
  case (Cons stage rest)
  obtain err g' sr' evs1 where
    e: "ExecuteGraph reg ctx (buildDependencyGraph (stage_Jobs stage))
          (new_StageResult (stage_Name stage)) False = Some (err, g', sr', evs1)"
    using ExecuteGraph_build[of reg ctx "stage_Jobs stage" "new_StageResult (stage_Name stage)" False]
    by blast
  show ?case
    using e by (cases err) (simp_all add: Cons rollback_stage_events_def)
qed

lemma executeRollback_eq:
  "executeRollback reg ctx rollback = Some (rollback_events reg ctx False rollback)"
  by (simp add: executeRollback_def rollback_loop_eq rollback_events_def)

lemma finalizeResult_fields [simp]:
  "snd (finalizeResult result success message) = (if success then None else Some (Errorf message))"
  "er_Success (fst (finalizeResult result success message)) = success"
  "er_Stages (fst (finalizeResult result success message)) = er_Stages result"
  "er_ID (fst (finalizeResult result success message)) = er_ID result"
  "er_TotalStages (fst (finalizeResult result success message)) = er_TotalStages result"
  "er_TotalJobs (fst (finalizeResult result success message)) = er_TotalJobs result"
  by (simp_all add: finalizeResult_def split: prod.splits)

lemma stage_loop_Nil:
  "stage_loop reg ctx plan options [] result evs =
     Some (fst (finalizeResult result True ''Plan execution completed successfully''), None, evs)"
proof -
  obtain r e where fr: "finalizeResult result True ''Plan execution completed successfully'' = (r, e)"
    by force
  have "e = None"
    using finalizeResult_fields(1)[of result True "''Plan execution completed successfully''"]
    unfolding fr by simp
  then show ?thesis by (simp add: fr)
qed

lemma stage_loop_ok:
  assumes "executeStage reg ctx stage (new_StageResult (stage_Name stage)) options = Some (None, sr, evs1)"
  shows "stage_loop reg ctx plan options (stage # rest) result evs =
           stage_loop reg ctx plan options rest
             (result\<lparr>er_Stages := er_Stages result @ [sr\<lparr>sr_Success := True\<rparr>]\<rparr>)
             (evs @ approval_lines options stage @ evs1 @
              [Printed (''Stage '' @ stage_Name stage @ '' completed successfully.'')])"
  using assms by (simp add: approval_lines_def)

lemma stage_loop_fail:
  assumes "executeStage reg ctx stage (new_StageResult (stage_Name stage)) options = Some (Some msg, sr, evs1)"
  shows "stage_loop reg ctx plan options (stage # rest) result evs =
           Some (fst (finalizeResult (result\<lparr>er_Stages := er_Stages result @ [sr\<lparr>sr_Success := False\<rparr>]\<rparr>)
                        False (''Stage '' @ stage_Name stage @ '' failed: '' @ msg)),
                 Some (stage_failed (stage_Name stage) msg),
                 evs @ approval_lines options stage @ evs1 @ failure_events reg ctx plan options)"
proof -
  let ?r = "result\<lparr>er_Stages := er_Stages result @ [sr\<lparr>sr_Success := False\<rparr>]\<rparr>"
  let ?m = "''Stage '' @ stage_Name stage @ '' failed: '' @ msg"
  obtain r e where fr: "finalizeResult ?r False ?m = (r, e)"
    by force
  have e: "e = Some (Errorf ?m)"
    using finalizeResult_fields(1)[of ?r False ?m] unfolding fr by simp
  have rb: "(if AutoRollback options \<and> plan_Rollback plan \<noteq> None
             then executeRollback reg ctx (the (plan_Rollback plan)) else Some [])
            = Some (failure_events reg ctx plan options)"
    by (cases "plan_Rollback plan") (simp_all add: failure_events_def executeRollback_eq)
  show ?thesis
    unfolding stage_loop.simps Let_def assms rb
    using fr e by (simp add: approval_lines_def stage_failed_def)
qed

declare stage_loop.simps [simp del]

lemma stage_loop_total:
  "\<exists>res err evs'. stage_loop reg ctx plan options stages result evs = Some (res, err, evs')"
proof (induction stages arbitrary: result evs)
  case Nil
  then show ?case by (simp only: stage_loop_Nil) blast
next
  case (Cons stage rest)
  obtain stageErr new evs1 where
    e: "executeStage reg ctx stage (new_StageResult (stage_Name stage)) options =
          Some (stageErr, append_jobs (new_StageResult (stage_Name stage)) new, evs1)"
    using executeStage_total by blast
  show ?case
  proof (cases stageErr)
    case None
    show ?thesis unfolding stage_loop_ok[OF e[unfolded None]] by (rule Cons)
  next
    case (Some msg)
    show ?thesis unfolding stage_loop_fail[OF e[unfolded Some]] by blast
  qed
qed

lemma executeStage_options:
  "DryRun options' = DryRun options \<Longrightarrow>
   executeStage reg ctx stage sr options' = executeStage reg ctx stage sr options"
  by (simp add: executeStage_def)

lemma stage_loop_outcome:
  assumes "DryRun options' = DryRun options"
  shows "outcome (stage_loop reg ctx plan' options' stages result evs') =
         outcome (stage_loop reg ctx plan options stages result evs)"
proof (induction stages arbitrary: result evs evs')
  case Nil
  then show ?case by (simp add: stage_loop_Nil outcome_def)
next
  case (Cons stage rest)
  obtain stageErr new evs1 where
    e: "executeStage reg ctx stage (new_StageResult (stage_Name stage)) options =
          Some (stageErr, append_jobs (new_StageResult (stage_Name stage)) new, evs1)"
    using executeStage_total by blast
  have e': "executeStage reg ctx stage (new_StageResult (stage_Name stage)) options' =
          Some (stageErr, append_jobs (new_StageResult (stage_Name stage)) new, evs1)"
    using e executeStage_options[OF assms] by simp
  show ?case
  proof (cases stageErr)
    case None
    show ?thesis
      unfolding stage_loop_ok[OF e[unfolded None]] stage_loop_ok[OF e'[unfolded None]]
      by (rule Cons)
  next
    case (Some msg)
    show ?thesis
      unfolding stage_loop_fail[OF e[unfolded Some]] stage_loop_fail[OF e'[unfolded Some]]
      by (simp add: outcome_def)
  qed
qed

lemma approval_lines_no_calls [simp]: "filter is_handler_call (approval_lines options stage) = []"
  by (simp add: approval_lines_def)

lemma failure_events_SkipApproval [simp]:
  "failure_events reg ctx plan (options\<lparr>SkipApproval := b\<rparr>) = failure_events reg ctx plan options"
  by (cases "plan_Rollback plan") (simp_all add: failure_events_def)

lemma stage_loop_calls:
  assumes "filter is_handler_call evs' = filter is_handler_call evs"
  shows "handler_calls (stage_loop reg ctx plan (options\<lparr>SkipApproval := b\<rparr>) stages result evs') =
         handler_calls (stage_loop reg ctx plan options stages result evs)"
  using assms
proof (induction stages arbitrary: result evs evs')
  case Nil
  then show ?case by (simp add: stage_loop_Nil handler_calls_def)
next
  case (Cons stage rest)
  obtain stageErr new evs1 where
    e: "executeStage reg ctx stage (new_StageResult (stage_Name stage)) options =
          Some (stageErr, append_jobs (new_StageResult (stage_Name stage)) new, evs1)"
    using executeStage_total by blast
  have e': "executeStage reg ctx stage (new_StageResult (stage_Name stage)) (options\<lparr>SkipApproval := b\<rparr>) =
          Some (stageErr, append_jobs (new_StageResult (stage_Name stage)) new, evs1)"
    using e executeStage_options[of "options\<lparr>SkipApproval := b\<rparr>" options] by simp
  show ?case
  proof (cases stageErr)
    case None
    show ?thesis
      unfolding stage_loop_ok[OF e[unfolded None]] stage_loop_ok[OF e'[unfolded None]]
      by (rule Cons.IH) (simp add: Cons.prems)
  next
    case (Some msg)
    show ?thesis
      unfolding stage_loop_fail[OF e[unfolded Some]] stage_loop_fail[OF e'[unfolded Some]]
      by (simp add: handler_calls_def Cons.prems)
  qed
qed

lemma append_jobs_fields [simp]:
  "sr_Name (append_jobs sr new) = sr_Name sr"
  "sr_Jobs (append_jobs sr new) = sr_Jobs sr @ new"
  by (simp_all add: append_jobs_def)

lemma executeStage_dry_events:
  assumes "executeStage reg ctx stage sr options = Some (stageErr, sr', evs1)" and "DryRun options"
  shows "evs1 = []"
proof -
  from executeStage_total[of reg ctx stage sr options] assms(1)
  have "set evs1 \<subseteq> (\<Union>job \<in> set (stage_Jobs stage).
          set (snd (run_job reg (ctx\<lparr>ctx_stageName := Some (stage_Name stage)\<rparr>) (DryRun options) job)))"
    by auto
  then show ?thesis using assms(2) by simp
qed

lemma stage_loop_failed:
  assumes "stage_loop reg ctx plan options stages result evs = Some (res, Some err, evs')"
  shows "\<exists>before stage after msg new evs1 fwd.
           stages = before @ stage # after \<and>
           executeStage reg ctx stage (new_StageResult (stage_Name stage)) options =
             Some (Some msg, append_jobs (new_StageResult (stage_Name stage)) new, evs1) \<and>
           err = stage_failed (stage_Name stage) msg \<and>
           \<not> er_Success res \<and>
           map sr_Name (er_Stages res) =
             map sr_Name (er_Stages result) @ map stage_Name before @ [stage_Name stage] \<and>
           map sr_Success (er_Stages res) =
             map sr_Success (er_Stages result) @ replicate (length before) True @ [False] \<and>
           evs' = evs @ fwd @ failure_events reg ctx plan options \<and>
           (DryRun options \<longrightarrow> filter is_handler_call fwd = [])"
  using assms
proof (induction stages arbitrary: result evs)
  case Nil
  then show ?case by (simp add: stage_loop_Nil)
next
  case (Cons stage rest)
  let ?sr0 = "new_StageResult (stage_Name stage)"
  obtain stageErr new evs1 where
    e: "executeStage reg ctx stage ?sr0 options = Some (stageErr, append_jobs ?sr0 new, evs1)"
    using executeStage_total by blast
  have dry: "DryRun options \<longrightarrow> evs1 = []"
    using executeStage_dry_events[OF e] by simp
  show ?case
  proof (cases stageErr)
    case None
    let ?result1 = "result\<lparr>er_Stages := er_Stages result @ [(append_jobs ?sr0 new)\<lparr>sr_Success := True\<rparr>]\<rparr>"
    let ?evs1 = "evs @ approval_lines options stage @ evs1 @
                 [Printed (''Stage '' @ stage_Name stage @ '' completed successfully.'')]"
    have "stage_loop reg ctx plan options rest ?result1 ?evs1 = Some (res, Some err, evs')"
      using Cons.prems unfolding stage_loop_ok[OF e[unfolded None]] .
    from Cons.IH[OF this] obtain before st after msg new' evs1' fwd where
      h: "rest = before @ st # after"
         "executeStage reg ctx st (new_StageResult (stage_Name st)) options =
             Some (Some msg, append_jobs (new_StageResult (stage_Name st)) new', evs1')"
         "err = stage_failed (stage_Name st) msg"
         "\<not> er_Success res"
         "map sr_Name (er_Stages res) =
             map sr_Name (er_Stages ?result1) @ map stage_Name before @ [stage_Name st]"
         "map sr_Success (er_Stages res) =
             map sr_Success (er_Stages ?result1) @ replicate (length before) True @ [False]"
         "evs' = ?evs1 @ fwd @ failure_events reg ctx plan options"
         "DryRun options \<longrightarrow> filter is_handler_call fwd = []"
      by blast
    let ?fwd = "approval_lines options stage @ evs1 @
                 [Printed (''Stage '' @ stage_Name stage @ '' completed successfully.'')] @ fwd"
    have 1: "stage # rest = (stage # before) @ st # after" using h(1) by simp
    have 5: "map sr_Name (er_Stages res) =
             map sr_Name (er_Stages result) @ map stage_Name (stage # before) @ [stage_Name st]"
      using h(5) by (simp add: new_StageResult_def)
    have 6: "map sr_Success (er_Stages res) =
             map sr_Success (er_Stages result) @ replicate (length (stage # before)) True @ [False]"
      using h(6) by simp
    have 7: "evs' = evs @ ?fwd @ failure_events reg ctx plan options" using h(7) by simp
    have 8: "DryRun options \<longrightarrow> filter is_handler_call ?fwd = []" using h(8) dry by simp
    show ?thesis using 1 h(2) h(3) h(4) 5 6 7 8 by blast
  next
    case (Some msg)
    note f = stage_loop_fail[OF e[unfolded Some], of plan rest result evs]
    have r: "res = fst (finalizeResult (result\<lparr>er_Stages := er_Stages result @
                  [(append_jobs ?sr0 new)\<lparr>sr_Success := False\<rparr>]\<rparr>) False
                  (''Stage '' @ stage_Name stage @ '' failed: '' @ msg))"
      and er: "err = stage_failed (stage_Name stage) msg"
      and ev: "evs' = evs @ (approval_lines options stage @ evs1) @ failure_events reg ctx plan options"
      using Cons.prems unfolding f by simp_all
    have 1: "stage # rest = [] @ stage # rest" by simp
    have 4: "\<not> er_Success res" using r by simp
    have 5: "map sr_Name (er_Stages res) =
             map sr_Name (er_Stages result) @ map stage_Name [] @ [stage_Name stage]"
      using r by (simp add: new_StageResult_def)
    have 6: "map sr_Success (er_Stages res) =
             map sr_Success (er_Stages result) @ replicate (length ([]::Stage list)) True @ [False]"
      using r by simp
    have 8: "DryRun options \<longrightarrow> filter is_handler_call (approval_lines options stage @ evs1) = []"
      using dry by simp
    show ?thesis using 1 e[unfolded Some] er 4 5 6 ev 8 by blast
  qed
qed

text \<open>
  The forward direction: when the stages before a stage succeed and the stage fails,
  the loop returns the error of that stage, after the events that follow a failure.
\<close>

lemma stage_outcome_executeStage:
  assumes "stage_outcome reg ctx options stage = Some stageErr"
  shows "\<exists>new evs1. executeStage reg ctx stage (new_StageResult (stage_Name stage)) options =
           Some (stageErr, append_jobs (new_StageResult (stage_Name stage)) new, evs1)"
proof -
  obtain stageErr' new evs1 where
    e: "executeStage reg ctx stage (new_StageResult (stage_Name stage)) options =
          Some (stageErr', append_jobs (new_StageResult (stage_Name stage)) new, evs1)"
    using executeStage_total[of reg ctx stage "new_StageResult (stage_Name stage)" options] by blast
  have "stageErr' = stageErr" using assms unfolding stage_outcome_def e by simp
  then show ?thesis using e by blast
qed

lemma stage_loop_forward:
  assumes "list_all (\<lambda>s. stage_outcome reg ctx options s = Some None) before"
    and "stage_outcome reg ctx options stage = Some (Some msg)"
  shows "\<exists>res fwd.
           stage_loop reg ctx plan options (before @ stage # after) result evs =
             Some (res, Some (stage_failed (stage_Name stage) msg),
                   evs @ fwd @ failure_events reg ctx plan options) \<and>
           \<not> er_Success res \<and>
           map sr_Name (er_Stages res) =
             map sr_Name (er_Stages result) @ map stage_Name before @ [stage_Name stage] \<and>
           map sr_Success (er_Stages res) =
             map sr_Success (er_Stages result) @ replicate (length before) True @ [False]"
  using assms(1)
proof (induction before arbitrary: result evs)
  case Nil
  obtain new evs1 where
    e: "executeStage reg ctx stage (new_StageResult (stage_Name stage)) options =
          Some (Some msg, append_jobs (new_StageResult (stage_Name stage)) new, evs1)"
    using stage_outcome_executeStage[OF assms(2)] by blast
  show ?case
    unfolding append_Nil stage_loop_fail[OF e]
    by (simp add: new_StageResult_def)
next
  case (Cons s before)
  have s: "stage_outcome reg ctx options s = Some None"
    and rest: "list_all (\<lambda>s. stage_outcome reg ctx options s = Some None) before"
    using Cons.prems by simp_all
  obtain new evs1 where
    e: "executeStage reg ctx s (new_StageResult (stage_Name s)) options =
          Some (None, append_jobs (new_StageResult (stage_Name s)) new, evs1)"
    using stage_outcome_executeStage[OF s] by blast
  let ?result1 = "result\<lparr>er_Stages := er_Stages result @
                    [(append_jobs (new_StageResult (stage_Name s)) new)\<lparr>sr_Success := True\<rparr>]\<rparr>"
  let ?evs1 = "evs @ approval_lines options s @ evs1 @
                 [Printed (''Stage '' @ stage_Name s @ '' completed successfully.'')]"
  from Cons.IH[OF rest, of ?result1 ?evs1] obtain res fwd where
    h: "stage_loop reg ctx plan options (before @ stage # after) ?result1 ?evs1 =
          Some (res, Some (stage_failed (stage_Name stage) msg),
                ?evs1 @ fwd @ failure_events reg ctx plan options)"
       "\<not> er_Success res"
       "map sr_Name (er_Stages res) =
          map sr_Name (er_Stages ?result1) @ map stage_Name before @ [stage_Name stage]"
       "map sr_Success (er_Stages res) =
          map sr_Success (er_Stages ?result1) @ replicate (length before) True @ [False]"
    by blast
  have l: "stage_loop reg ctx plan options ((s # before) @ stage # after) result evs =
             Some (res, Some (stage_failed (stage_Name stage) msg),
                   evs @ (approval_lines options s @ evs1 @
                     [Printed (''Stage '' @ stage_Name s @ '' completed successfully.'')] @ fwd) @
                   failure_events reg ctx plan options)"
    unfolding append_Cons stage_loop_ok[OF e] using h(1) by simp
  have n: "map sr_Name (er_Stages res) =
             map sr_Name (er_Stages result) @ map stage_Name (s # before) @ [stage_Name stage]"
    using h(3) by (simp add: new_StageResult_def)
  have f: "map sr_Success (er_Stages res) =
             map sr_Success (er_Stages result) @ replicate (length (s # before)) True @ [False]"
    using h(4) by simp
  show ?case using l h(2) n f by blast
qed

lemma rollback_stage_events_calls:
  assumes "e \<in> set (rollback_stage_events reg ctx dryRun stage)" and "is_handler_call e"
  shows "\<exists>job \<in> set (stage_Jobs stage). e \<in> job_calls job"
proof -
  obtain err g' new evs where
    x: "ExecuteGraph reg ctx (buildDependencyGraph (stage_Jobs stage))
          (new_StageResult (stage_Name stage)) dryRun
        = Some (err, g', append_jobs (new_StageResult (stage_Name stage)) new, evs)"
    and s: "set evs \<subseteq> (\<Union>job \<in> set (stage_Jobs stage). set (snd (run_job reg ctx dryRun job)))"
    using ExecuteGraph_build[of reg ctx "stage_Jobs stage" "new_StageResult (stage_Name stage)" dryRun]
    by blast
  have ev: "rollback_stage_events reg ctx dryRun stage =
              evs @ (case err of None \<Rightarrow> []
                     | Some m \<Rightarrow> [Printed (''Rollback stage '' @ stage_Name stage @ '' failed: '' @ m)])"
    unfolding rollback_stage_events_def x by simp
  have "e \<in> set evs"
  proof (cases err)
    case None
    then show ?thesis using assms(1) unfolding ev by simp
  next
    case (Some m)
    have "e \<noteq> Printed (''Rollback stage '' @ stage_Name stage @ '' failed: '' @ m)"
      using assms(2) by (cases e) simp_all
    then show ?thesis using assms(1) unfolding ev Some by simp
  qed
  then obtain job where j: "job \<in> set (stage_Jobs stage)"
    and m: "e \<in> set (snd (run_job reg ctx dryRun job))"
    using s by blast
  have "e \<in> job_calls job"
    using run_job_calls[OF m assms(2)] by (simp add: job_calls_def)
  then show ?thesis using j by blast
qed

lemma failure_events_calls:
  assumes "e \<in> set (failure_events reg ctx plan options)" and "is_handler_call e"
  shows "\<exists>job \<in> rollback_jobs plan. e \<in> job_calls job"
proof (cases "plan_Rollback plan")
  case None
  then show ?thesis using assms by (simp add: failure_events_def)
next
  case (Some rollback)
  then have "e \<in> set (rollback_events reg ctx False rollback)"
    using assms(1) by (simp add: failure_events_def split: if_splits)
  moreover have "e \<noteq> Printed ''Starting rollback execution...''"
    and "e \<noteq> Printed ''Rollback execution completed''"
    using assms(2) by (cases e; simp)+
  ultimately obtain stage where st: "stage \<in> set (rollback_Stages rollback)"
    and m: "e \<in> set (rollback_stage_events reg ctx False stage)"
    unfolding rollback_events_def by auto
  obtain job where "job \<in> set (stage_Jobs stage)" "e \<in> job_calls job"
    using rollback_stage_events_calls[OF m assms(2)] by blast
  then show ?thesis using st Some by (auto simp: rollback_jobs_def)
qed

lemma executeStage_calls:
  assumes "executeStage reg ctx stage sr options = Some (stageErr, sr', evs1)"
    and "e \<in> set evs1" and "is_handler_call e"
  shows "\<exists>job \<in> set (stage_Jobs stage). e \<in> job_calls job"
proof -
  from executeStage_total[of reg ctx stage sr options] assms(1)
  have "set evs1 \<subseteq> (\<Union>job \<in> set (stage_Jobs stage).
          set (snd (run_job reg (ctx\<lparr>ctx_stageName := Some (stage_Name stage)\<rparr>) (DryRun options) job)))"
    by auto
  then obtain job where j: "job \<in> set (stage_Jobs stage)"
    and m: "e \<in> set (snd (run_job reg (ctx\<lparr>ctx_stageName := Some (stage_Name stage)\<rparr>) (DryRun options) job))"
    using assms(2) by blast
  have "e \<in> job_calls job"
    using run_job_calls[OF m assms(3)] by (simp add: job_calls_def)
  then show ?thesis using j by blast
qed

lemma stage_loop_handler_events:
  assumes "stage_loop reg ctx plan options stages result evs = Some (res, err, evs')"
    and "e \<in> set evs'" and "is_handler_call e"
  shows "e \<in> set evs \<or>
         (\<exists>job \<in> (\<Union>stage \<in> set stages. set (stage_Jobs stage)) \<union> rollback_jobs plan. e \<in> job_calls job)"
  using assms(1,2)
proof (induction stages arbitrary: result evs)
  case Nil
  then show ?case by (simp add: stage_loop_Nil)
next
  case (Cons stage rest)
  let ?sr0 = "new_StageResult (stage_Name stage)"
  obtain stageErr new evs1 where
    x: "executeStage reg ctx stage ?sr0 options = Some (stageErr, append_jobs ?sr0 new, evs1)"
    using executeStage_total by blast
  have c1: "\<exists>job \<in> set (stage_Jobs stage). e \<in> job_calls job" if "e \<in> set evs1"
    by (rule executeStage_calls[OF x that assms(3)])
  show ?case
  proof (cases stageErr)
    case None
    from Cons.prems(1)[unfolded stage_loop_ok[OF x[unfolded None]]]
    have "e \<in> set (evs @ approval_lines options stage @ evs1 @
              [Printed (''Stage '' @ stage_Name stage @ '' completed successfully.'')]) \<or>
         (\<exists>job \<in> (\<Union>stage \<in> set rest. set (stage_Jobs stage)) \<union> rollback_jobs plan. e \<in> job_calls job)"
      by (rule Cons.IH) (rule Cons.prems(2))
    moreover have "e \<notin> set (approval_lines options stage)"
      using assms(3) by (auto simp: approval_lines_def)
    moreover have "e \<noteq> Printed (''Stage '' @ stage_Name stage @ '' completed successfully.'')"
      using assms(3) by auto
    ultimately show ?thesis using c1 by auto
  next
    case (Some msg)
    from Cons.prems[unfolded stage_loop_fail[OF x[unfolded Some]]]
    have "e \<in> set (evs @ approval_lines options stage @ evs1 @ failure_events reg ctx plan options)"
      by simp
    moreover have "e \<notin> set (approval_lines options stage)"
      using assms(3) by (auto simp: approval_lines_def)
    moreover have "\<exists>job \<in> rollback_jobs plan. e \<in> job_calls job"
      if "e \<in> set (failure_events reg ctx plan options)"
      by (rule failure_events_calls[OF that assms(3)])
    ultimately show ?thesis using c1 by auto
  qed
qed

lemma foldl_tally_job:
  "foldl tally_job (c, f) js =
     (c + length (filter jr_Success js), f + length (filter (\<lambda>job. \<not> jr_Success job) js))"
proof (induction js arbitrary: c f)
  case Nil
  then show ?case by simp
next
  case (Cons job js)
  show ?case
  proof (cases "jr_Success job")
    case True
    then show ?thesis using Cons[of "c + 1" f] by simp
  next
    case False
    then show ?thesis using Cons[of c "f + 1"] by simp
  qed
qed

lemma foldl_tally_stages:
  "foldl (\<lambda>counts stage. foldl tally_job counts (sr_Jobs stage)) (c, f) stages =
     (c + length (filter jr_Success (concat (map sr_Jobs stages))),
      f + length (filter (\<lambda>job. \<not> jr_Success job) (concat (map sr_Jobs stages))))"
proof (induction stages arbitrary: c f)
  case Nil
  then show ?case by simp
next
  case (Cons stage stages)
  show ?case
    unfolding foldl_Cons foldl_tally_job Cons by simp
qed

lemma finalizeResult_counts:
  "er_CompletedJobs (fst (finalizeResult result success message)) =
     er_CompletedJobs result + length (filter jr_Success (concat (map sr_Jobs (er_Stages result))))"
  "er_FailedJobs (fst (finalizeResult result success message)) =
     er_FailedJobs result + length (filter (\<lambda>job. \<not> jr_Success job) (concat (map sr_Jobs (er_Stages result))))"
  unfolding finalizeResult_def foldl_tally_stages by simp_all

lemma stage_loop_counts:
  assumes "stage_loop reg ctx plan options stages result evs = Some (res, err, evs')"
  shows "er_CompletedJobs res =
           er_CompletedJobs result + length (filter jr_Success (concat (map sr_Jobs (er_Stages res)))) \<and>
         er_FailedJobs res =
           er_FailedJobs result + length (filter (\<lambda>job. \<not> jr_Success job) (concat (map sr_Jobs (er_Stages res))))"
  using assms
proof (induction stages arbitrary: result evs)
  case Nil
  then have "res = fst (finalizeResult result True ''Plan execution completed successfully'')"
    by (simp add: stage_loop_Nil)
  then show ?case by (simp add: finalizeResult_counts)
next
  case (Cons stage rest)
  let ?sr0 = "new_StageResult (stage_Name stage)"
  obtain stageErr new evs1 where
    x: "executeStage reg ctx stage ?sr0 options = Some (stageErr, append_jobs ?sr0 new, evs1)"
    using executeStage_total by blast
  show ?case
  proof (cases stageErr)
    case None
    from Cons.IH[OF Cons.prems[unfolded stage_loop_ok[OF x[unfolded None]]]]
    show ?thesis by simp
  next
    case (Some msg)
    from Cons.prems[unfolded stage_loop_fail[OF x[unfolded Some]]]
    have "res = fst (finalizeResult (result\<lparr>er_Stages := er_Stages result @
                  [(append_jobs ?sr0 new)\<lparr>sr_Success := False\<rparr>]\<rparr>) False
                  (''Stage '' @ stage_Name stage @ '' failed: '' @ msg))"
      by simp
    then show ?thesis by (simp add: finalizeResult_counts)
  qed
qed

lemma ExecutePlan_eq:
  "ExecutePlan reg executionID plan options =
     stage_loop reg (run_ctx executionID plan) plan options (plan_Stages plan)
       (initial_result executionID plan) []"
  by (simp add: ExecutePlan_def run_ctx_def initial_result_def)

lemma ExecutePlugin_registered:
  assumes "reg jobType = Some plg"
  shows "fst (ExecutePlugin reg ctx jobType cfg) =
           (case plg_Validate plg ctx cfg of
              Some m \<Rightarrow> Inl (''invalid configuration: '' @ m)
            | None \<Rightarrow> plg_Execute plg ctx cfg)"
proof -
  have c: "(if length (case ctx_variables ctx of Some m \<Rightarrow> m | None \<Rightarrow> []) > 0 \<and> ctx_variables ctx = None
            then ctx\<lparr>ctx_variables := Some (case ctx_variables ctx of Some m \<Rightarrow> m | None \<Rightarrow> [])\<rparr>
            else ctx) = ctx"
    by (cases "ctx_variables ctx") simp_all
  show ?thesis
    unfolding ExecutePlugin_def GetPlugin_def Let_def c using assms
    by (simp split: option.splits)
qed

lemma rollback_stage_events_dry:
  "filter is_handler_call (rollback_stage_events reg ctx True stage) = []"
proof -
  have "\<not> (e \<in> set (rollback_stage_events reg ctx True stage) \<and> is_handler_call e)" for e
  proof
    assume a: "e \<in> set (rollback_stage_events reg ctx True stage) \<and> is_handler_call e"
    then obtain job where "job \<in> set (stage_Jobs stage)" and "e \<in> job_calls job"
      using rollback_stage_events_calls[of e reg ctx True stage] by blast
    obtain err g' new evs where
      x: "ExecuteGraph reg ctx (buildDependencyGraph (stage_Jobs stage))
            (new_StageResult (stage_Name stage)) True
          = Some (err, g', append_jobs (new_StageResult (stage_Name stage)) new, evs)"
      and s: "set evs \<subseteq> (\<Union>job \<in> set (stage_Jobs stage). set (snd (run_job reg ctx True job)))"
      using ExecuteGraph_build[of reg ctx "stage_Jobs stage" "new_StageResult (stage_Name stage)" True]
      by blast
    have "evs = []" using s by simp
    then have "e \<in> set (case err of None \<Rightarrow> []
                     | Some m \<Rightarrow> [Printed (''Rollback stage '' @ stage_Name stage @ '' failed: '' @ m)])"
      using a unfolding rollback_stage_events_def x by simp
    then show False using a by (cases err) auto
  qed
  then show ?thesis by (simp add: filter_empty_conv)
qed

lemma rollback_events_dry:
  "filter is_handler_call (rollback_events reg ctx True rollback) = []"
  by (simp add: rollback_events_def filter_concat rollback_stage_events_dry)

lemma stage_loop_shape:
  "\<exists>res err more.
     stage_loop reg ctx plan options stages result evs = Some (res, err, evs @ more) \<and>
     length (er_Stages res) \<le> length (er_Stages result) + length stages"
proof (induction stages arbitrary: result evs)
  case Nil
  show ?case unfolding stage_loop_Nil by simp
next
  case (Cons stage rest)
  let ?sr0 = "new_StageResult (stage_Name stage)"
  obtain stageErr new evs1 where
    x: "executeStage reg ctx stage ?sr0 options = Some (stageErr, append_jobs ?sr0 new, evs1)"
    using executeStage_total[of reg ctx stage ?sr0 options] by blast
  show ?case
  proof (cases stageErr)
    case None
    let ?result1 = "result\<lparr>er_Stages := er_Stages result @ [(append_jobs ?sr0 new)\<lparr>sr_Success := True\<rparr>]\<rparr>"
    let ?evs1 = "evs @ approval_lines options stage @ evs1 @
                 [Printed (''Stage '' @ stage_Name stage @ '' completed successfully.'')]"
    from Cons[of ?result1 ?evs1] obtain res err more where
      "stage_loop reg ctx plan options rest ?result1 ?evs1 = Some (res, err, ?evs1 @ more)"
      "length (er_Stages res) \<le> length (er_Stages ?result1) + length rest"
      by blast
    then have "stage_loop reg ctx plan options (stage # rest) result evs =
                 Some (res, err, evs @ (approval_lines options stage @ evs1 @
                   [Printed (''Stage '' @ stage_Name stage @ '' completed successfully.'')] @ more))"
      and "length (er_Stages res) \<le> length (er_Stages result) + length (stage # rest)"
      unfolding stage_loop_ok[OF x[unfolded None]] by simp_all
    then show ?thesis by blast
  next
    case (Some msg)
    show ?thesis unfolding stage_loop_fail[OF x[unfolded Some]] by simp
  qed
qed

lemma stage_loop_approval:
  "\<exists>stageErr sr evs1 more.
     executeStage reg ctx stage (new_StageResult (stage_Name stage)) options = Some (stageErr, sr, evs1) \<and>
     plan_events (stage_loop reg ctx plan options (stage # rest) result evs) =
       evs @ approval_lines options stage @ evs1 @ more"
proof -
  let ?sr0 = "new_StageResult (stage_Name stage)"
  obtain stageErr new evs1 where
    x: "executeStage reg ctx stage ?sr0 options = Some (stageErr, append_jobs ?sr0 new, evs1)"
    using executeStage_total[of reg ctx stage ?sr0 options] by blast
  show ?thesis
  proof (cases stageErr)
    case None
    let ?result1 = "result\<lparr>er_Stages := er_Stages result @ [(append_jobs ?sr0 new)\<lparr>sr_Success := True\<rparr>]\<rparr>"
    let ?evs1 = "evs @ approval_lines options stage @ evs1 @
                 [Printed (''Stage '' @ stage_Name stage @ '' completed successfully.'')]"
    from stage_loop_shape[of reg ctx plan options rest ?result1 ?evs1] obtain res err more where
      "stage_loop reg ctx plan options rest ?result1 ?evs1 = Some (res, err, ?evs1 @ more)"
      by blast
    then have "plan_events (stage_loop reg ctx plan options (stage # rest) result evs) =
                 evs @ approval_lines options stage @ evs1 @
                   ([Printed (''Stage '' @ stage_Name stage @ '' completed successfully.'')] @ more)"
      unfolding stage_loop_ok[OF x[unfolded None]] by (simp add: plan_events_def)
    then show ?thesis using x by blast
  next
    case (Some msg)
    have "plan_events (stage_loop reg ctx plan options (stage # rest) result evs) =
            evs @ approval_lines options stage @ evs1 @ failure_events reg ctx plan options"
      unfolding stage_loop_fail[OF x[unfolded Some]] by (simp add: plan_events_def)
    then show ?thesis using x by blast
  qed
qed

lemma plan_without_rollback [simp]:
  "run_ctx executionID (plan\<lparr>plan_Rollback := None\<rparr>) = run_ctx executionID plan"
  "initial_result executionID (plan\<lparr>plan_Rollback := None\<rparr>) = initial_result executionID plan"
  by (simp_all add: run_ctx_def initial_result_def countTotalJobs_def)

section \<open>The claims\<close>

subsection \<open>C1: what a wave records\<close>

text \<open>
  C1 as stated: after the barrier of a wave every job's result is appended to the stage
  result in dispatch order, also the results of the jobs behind a failed one.

  The code appends and checks in one loop and returns at the first failed result, so
  the results behind it are never appended. In the wave of \<open>graph_BC\<close> the jobs
  \<open>B\<close> and \<open>C\<close> are dispatched in this order and both run (the handler of \<open>C\<close> is
  executed), \<open>B\<close> fails, and only \<open>B\<close> is recorded.
\<close>

theorem later_results_not_recorded:
  "map job_Name (GetReadyJobs graph_BC) = [''B'', ''C''] \<and>
   wave_results demo_registry demo_ctx False (GetReadyJobs graph_BC) = [result_B, result_C] \<and>
   run_recorded (ExecuteGraph demo_registry demo_ctx graph_BC (new_StageResult ''deploy'') False) = [''B''] \<and>
   ExecuteCalled ''echo'' [(''port'', VString ''${port}'')]
     \<in> set (run_events (ExecuteGraph demo_registry demo_ctx graph_BC (new_StageResult ''deploy'') False))"
  by code_simp

text \<open>
  C1 as amended. For every wave (a non-empty list of ready jobs): when no result of
  the wave is a failure, all results are appended to the stage result in dispatch
  order, their jobs are marked completed and the loop goes on with the next ready
  jobs; when some result is a failure, the results up to the first failed one are
  appended in dispatch order, that one included and none behind it, the jobs before
  it are marked completed, and the loop returns the error naming the first failed job
  and its message, starting no further wave. In both cases the events are those of
  all jobs of the wave: every ready job was dispatched.
\<close>

theorem wave_records_until_first_failure:
  assumes "readyJobs \<noteq> []"
  shows "(case dropWhile jr_Success (wave_results reg ctx dryRun readyJobs) of
            [] \<Rightarrow>
              wave_loop reg ctx dryRun readyJobs g sr evs =
                wave_loop reg ctx dryRun
                  (GetReadyJobs (mark_all g (wave_results reg ctx dryRun readyJobs)))
                  (mark_all g (wave_results reg ctx dryRun readyJobs))
                  (append_jobs sr (wave_results reg ctx dryRun readyJobs))
                  (evs @ wave_events reg ctx dryRun readyJobs)
          | failed # later \<Rightarrow>
              wave_loop reg ctx dryRun readyJobs g sr evs =
                Some (Some (job_failed failed),
                      mark_all g (takeWhile jr_Success (wave_results reg ctx dryRun readyJobs)),
                      append_jobs sr (takeWhile jr_Success (wave_results reg ctx dryRun readyJobs) @ [failed]),
                      evs @ wave_events reg ctx dryRun readyJobs))"
proof (cases "dropWhile jr_Success (wave_results reg ctx dryRun readyJobs)")
  case Nil
  show ?thesis unfolding Nil list.case by (rule wave_step_ok[OF assms Nil])
next
  case (Cons failed later)
  show ?thesis unfolding Cons list.case by (rule wave_step_fail[OF assms Cons])
qed

theorem wave_records_until_first_failure_witness:
  "GetReadyJobs graph_BC \<noteq> [] \<and>
   dropWhile jr_Success (wave_results demo_registry demo_ctx False (GetReadyJobs graph_BC)) = [result_B, result_C] \<and>
   wave_loop demo_registry demo_ctx False (GetReadyJobs graph_BC) graph_BC (new_StageResult ''deploy'') [] =
     Some (Some ''job B failed: Failed to execute job: boom'', graph_BC,
           append_jobs (new_StageResult ''deploy'') [result_B],
           wave_events demo_registry demo_ctx False (GetReadyJobs graph_BC))"
proof -
  have ne: "GetReadyJobs graph_BC \<noteq> []" by code_simp
  have dw: "dropWhile jr_Success (wave_results demo_registry demo_ctx False (GetReadyJobs graph_BC))
              = [result_B, result_C]" by code_simp
  have tw: "takeWhile jr_Success (wave_results demo_registry demo_ctx False (GetReadyJobs graph_BC)) = []"
    by code_simp
  have jf: "job_failed result_B = ''job B failed: Failed to execute job: boom''" by code_simp
  from wave_records_until_first_failure[OF ne, of demo_registry demo_ctx False graph_BC
      "new_StageResult ''deploy''" "[]"]
  have "wave_loop demo_registry demo_ctx False (GetReadyJobs graph_BC) graph_BC (new_StageResult ''deploy'') [] =
     Some (Some ''job B failed: Failed to execute job: boom'', graph_BC,
           append_jobs (new_StageResult ''deploy'') [result_B],
           wave_events demo_registry demo_ctx False (GetReadyJobs graph_BC))"
    unfolding dw tw list.case jf by simp
  then show ?thesis using ne dw by blast
qed

subsection \<open>C2: the configuration a handler receives\<close>

text \<open>
  C2 as stated: the configuration passed to a handler's \<^verbatim>\<open>Validate\<close> and
  \<^verbatim>\<open>Execute\<close> has had the resolver applied to it against the plan's variables.

  Neither \<^verbatim>\<open>executeJob\<close> nor \<^verbatim>\<open>ExecutePlugin\<close> calls the resolver. In the run of
  \<open>plan_echo\<close>, whose variables give \<^verbatim>\<open>port\<close> the value 8080, the resolver would
  turn the job's configuration into \<^verbatim>\<open>port: 8080\<close>; the handler is called with the
  reference \<^verbatim>\<open>${port}\<close> still in it.
\<close>

theorem handler_sees_unresolved_config:
  "ResolveValues (\<lambda>v. []) (job_Config (demo_job ''A'' ''echo'' [])) (plan_Variables plan_echo)
     = Inr [(''port'', VInt 8080)] \<and>
   handler_calls (ExecutePlan demo_registry ''run-1'' plan_echo real_run)
     = [ValidateCalled ''echo'' [(''port'', VString ''${port}'')],
        ExecuteCalled ''echo'' [(''port'', VString ''${port}'')]]"
  by code_simp

text \<open>
  C2 as amended. Every call to a handler during the execution of a plan carries the
  type and the configuration of a job of the plan exactly as the plan holds them: no
  variable resolution is applied at dispatch. And \<^verbatim>\<open>ExecutePlugin\<close>, for a registered
  handler, applies \<^verbatim>\<open>Validate\<close> and then \<^verbatim>\<open>Execute\<close> to the very context and
  configuration it was given.
\<close>

theorem handlers_receive_job_config:
  "(e \<in> set (plan_events (ExecutePlan reg executionID plan options)) \<and> is_handler_call e \<longrightarrow>
      (\<exists>job \<in> plan_jobs plan. e \<in> job_calls job)) \<and>
   (reg jobType = Some plg \<longrightarrow>
      fst (ExecutePlugin reg ctx jobType cfg) =
        (case plg_Validate plg ctx cfg of
           Some m \<Rightarrow> Inl (''invalid configuration: '' @ m)
         | None \<Rightarrow> plg_Execute plg ctx cfg))"
proof (intro conjI impI)
  assume a: "e \<in> set (plan_events (ExecutePlan reg executionID plan options)) \<and> is_handler_call e"
  obtain res err evs where
    r: "stage_loop reg (run_ctx executionID plan) plan options (plan_Stages plan)
          (initial_result executionID plan) [] = Some (res, err, evs)"
    using stage_loop_total[of reg "run_ctx executionID plan" plan options "plan_Stages plan"
        "initial_result executionID plan" "[]"] by blast
  have "e \<in> set evs" using a unfolding ExecutePlan_eq r by (simp add: plan_events_def)
  from stage_loop_handler_events[OF r this] a
  show "\<exists>job \<in> plan_jobs plan. e \<in> job_calls job"
    by (simp add: plan_jobs_def)
next
  assume "reg jobType = Some plg"
  then show "fst (ExecutePlugin reg ctx jobType cfg) =
        (case plg_Validate plg ctx cfg of
           Some m \<Rightarrow> Inl (''invalid configuration: '' @ m)
         | None \<Rightarrow> plg_Execute plg ctx cfg)"
    by (rule ExecutePlugin_registered)
qed

theorem handlers_receive_job_config_witness:
  "ExecuteCalled ''echo'' [(''port'', VString ''${port}'')]
     \<in> set (plan_events (ExecutePlan demo_registry ''run-1'' plan_echo real_run)) \<and>
   (\<exists>job \<in> plan_jobs plan_echo.
      ExecuteCalled ''echo'' [(''port'', VString ''${port}'')] \<in> job_calls job) \<and>
   demo_registry ''echo'' = Some echo_plugin \<and>
   fst (ExecutePlugin demo_registry demo_ctx ''echo'' [(''port'', VString ''${port}'')]) =
     Inr \<lparr>res_Success = True, res_Data = [(''port'', VString ''${port}'')],
          res_Message = ''done'', res_ExecutionID = ''run-1''\<rparr>"
proof -
  have m: "ExecuteCalled ''echo'' [(''port'', VString ''${port}'')]
             \<in> set (plan_events (ExecutePlan demo_registry ''run-1'' plan_echo real_run))"
    by code_simp
  have h: "is_handler_call (ExecuteCalled ''echo'' [(''port'', VString ''${port}'')])" by simp
  have g: "demo_registry ''echo'' = Some echo_plugin" by (simp add: demo_registry_def)
  note t = handlers_receive_job_config[of "ExecuteCalled ''echo'' [(''port'', VString ''${port}'')]"
      demo_registry "''run-1''" plan_echo real_run "''echo''" echo_plugin demo_ctx
      "[(''port'', VString ''${port}'')]"]
  have 1: "\<exists>job \<in> plan_jobs plan_echo.
      ExecuteCalled ''echo'' [(''port'', VString ''${port}'')] \<in> job_calls job"
    using t m h by blast
  have 2: "fst (ExecutePlugin demo_registry demo_ctx ''echo'' [(''port'', VString ''${port}'')]) =
     (case plg_Validate echo_plugin demo_ctx [(''port'', VString ''${port}'')] of
           Some m \<Rightarrow> Inl (''invalid configuration: '' @ m)
         | None \<Rightarrow> plg_Execute echo_plugin demo_ctx [(''port'', VString ''${port}'')])"
    using t g by blast
  have 3: "fst (ExecutePlugin demo_registry demo_ctx ''echo'' [(''port'', VString ''${port}'')]) =
     Inr \<lparr>res_Success = True, res_Data = [(''port'', VString ''${port}'')],
          res_Message = ''done'', res_ExecutionID = ''run-1''\<rparr>"
    unfolding 2 by (simp add: echo_plugin_def demo_ctx_def)
  show ?thesis using m 1 g 3 by blast
qed

subsection \<open>C3: references embedded in other text\<close>

text \<open>
  C3. A string that is not one whole reference but holds references embedded in other
  text is resolved leniently: each resolvable reference is replaced by the string form
  of its value, each other one stays, and no error is returned.

  \<^verbatim>\<open>resolveString\<close> takes a string for a whole reference as soon as the expression
  matches somewhere in it, it starts with \<^verbatim>\<open>${\<close> and it ends with \<^verbatim>\<open>}\<close>. The
  string \<^verbatim>\<open>${a}-${b}\<close> holds two references around a dash and passes that test; the
  code then looks up the path \<^verbatim>\<open>a}-${b\<close> and returns its error, although both
  references resolve. The theorem evaluates the code there. (On every string that
  does not both start with \<^verbatim>\<open>${\<close> and end with \<^verbatim>\<open>}\<close> the code is lenient, as
  the lemmas on the resolver show.)
\<close>

theorem resolveString_two_references_error:
  "resolveString Sprintf ''${a}-${b}'' [(''a'', VInt 1), (''b'', VInt 2)]
     = Inl (RefPathNotFound ''a}-${b'')"
  by (simp add: resolveString_def match_here_def HasPrefix_def HasSuffix_def slice_def
      resolvePath_def)

subsection \<open>C4: a string that is one whole reference\<close>

text \<open>
  C4. For a string that consists of exactly one reference \<^verbatim>\<open>${p}\<close> (\<open>p\<close> not empty
  and free of \<^verbatim>\<open>}\<close>): when the dot-separated path \<open>p\<close> leads to a value in the
  context, \<^verbatim>\<open>resolveString\<close> returns that very value, whatever its type; when it does
  not, \<^verbatim>\<open>resolveString\<close> returns a path error (reference path not found, or invalid
  reference path when a value on the way is no mapping), and \<^verbatim>\<open>ResolveValues\<close> fails
  on every configuration in which the string occurs, at any depth of its nested
  mappings and lists.
\<close>

theorem resolveString_whole_reference:
  assumes "p \<noteq> []" and "CHR ''}'' \<notin> set p"
  shows "(case value_at (Split p (CHR ''.'')) (VMap ctx) of
            Some v \<Rightarrow> resolveString Sprintf (whole_reference p) ctx = Inr v
          | None \<Rightarrow>
              (resolveString Sprintf (whole_reference p) ctx = Inl (RefPathNotFound p) \<or>
               resolveString Sprintf (whole_reference p) ctx = Inl (InvalidRefPath p)) \<and>
              (\<forall>cfg. occurs_in_map (whole_reference p) cfg \<longrightarrow>
                 (\<exists>err. ResolveValues Sprintf cfg ctx = Inl err)))"
proof (cases "value_at (Split p (CHR ''.'')) (VMap ctx)")
  case None
  have r: "resolveString Sprintf (whole_reference p) ctx = resolvePath p ctx"
    by (rule resolveString_whole[OF assms])
  have e: "resolvePath p ctx = Inl (RefPathNotFound p) \<or> resolvePath p ctx = Inl (InvalidRefPath p)"
    unfolding resolvePath_def by (rule walk_parts_None[OF None])
  then obtain e' where e': "resolveString Sprintf (whole_reference p) ctx = Inl e'"
    using r by auto
  have "\<exists>err. ResolveValues Sprintf cfg ctx = Inl err"
    if "occurs_in_map (whole_reference p) cfg" for cfg
    by (rule occurs_in_fails(2)[OF e' that])
  then show ?thesis using None r e by simp
next
  case (Some v)
  then show ?thesis
    using resolveString_whole[OF assms, of Sprintf ctx] walk_parts_Some[OF Some, of p]
    by (simp add: resolvePath_def)
qed

theorem resolveString_whole_reference_witness:
  "resolveString (\<lambda>v. []) ''${a.b}'' [(''a'', VMap [(''b'', VInt 42)])] = Inr (VInt 42) \<and>
   (resolveString (\<lambda>v. []) ''${missing.x}'' [(''a'', VMap [(''b'', VInt 42)])]
      = Inl (RefPathNotFound ''missing.x'') \<or>
    resolveString (\<lambda>v. []) ''${missing.x}'' [(''a'', VMap [(''b'', VInt 42)])]
      = Inl (InvalidRefPath ''missing.x'')) \<and>
   (\<exists>err. ResolveValues (\<lambda>v. []) [(''n'', VInt 1), (''k'', VString ''${missing.x}'')]
             [(''a'', VMap [(''b'', VInt 42)])] = Inl err) \<and>
   (\<exists>err. ResolveValues (\<lambda>v. []) [(''hosts'', VSlice [VString ''${missing.x}''])]
             [(''a'', VMap [(''b'', VInt 42)])] = Inl err) \<and>
   (\<exists>err. ResolveValues (\<lambda>v. [])
             [(''n'', VInt 1),
              (''db'', VMap [(''replicas'', VSlice [VBool True, VMap [(''host'', VString ''${missing.x}'')]])])]
             [(''a'', VMap [(''b'', VInt 42)])] = Inl err)"
proof -
  have a: "''a.b'' \<noteq> []" "CHR ''}'' \<notin> set ''a.b''" by simp_all
  have b: "''missing.x'' \<noteq> []" "CHR ''}'' \<notin> set ''missing.x''" by simp_all
  have va: "value_at (Split ''a.b'' (CHR ''.'')) (VMap [(''a'', VMap [(''b'', VInt 42)])]) = Some (VInt 42)"
    by simp
  have vb: "value_at (Split ''missing.x'' (CHR ''.'')) (VMap [(''a'', VMap [(''b'', VInt 42)])]) = None"
    by simp
  have w1: "whole_reference ''a.b'' = ''${a.b}''" and w2: "whole_reference ''missing.x'' = ''${missing.x}''"
    by (simp_all add: whole_reference_def)
  from resolveString_whole_reference[OF a, where ctx = "[(''a'', VMap [(''b'', VInt 42)])]" and Sprintf = "\<lambda>v. []"]
  have 1: "resolveString (\<lambda>v. []) ''${a.b}'' [(''a'', VMap [(''b'', VInt 42)])] = Inr (VInt 42)"
    unfolding va w1 by simp
  from resolveString_whole_reference[OF b, where ctx = "[(''a'', VMap [(''b'', VInt 42)])]" and Sprintf = "\<lambda>v. []"]
  have 2: "(resolveString (\<lambda>v. []) ''${missing.x}'' [(''a'', VMap [(''b'', VInt 42)])]
              = Inl (RefPathNotFound ''missing.x'') \<or>
            resolveString (\<lambda>v. []) ''${missing.x}'' [(''a'', VMap [(''b'', VInt 42)])]
              = Inl (InvalidRefPath ''missing.x'')) \<and>
           (\<forall>cfg. occurs_in_map ''${missing.x}'' cfg \<longrightarrow>
              (\<exists>err. ResolveValues (\<lambda>v. []) cfg [(''a'', VMap [(''b'', VInt 42)])] = Inl err))"
    unfolding vb w2 by simp
  have o1: "occurs_in_map ''${missing.x}'' [(''n'', VInt 1), (''k'', VString ''${missing.x}'')]"
    by simp
  have o2: "occurs_in_map ''${missing.x}'' [(''hosts'', VSlice [VString ''${missing.x}''])]"
    by simp
  have o3: "occurs_in_map ''${missing.x}''
             [(''n'', VInt 1),
              (''db'', VMap [(''replicas'', VSlice [VBool True, VMap [(''host'', VString ''${missing.x}'')]])])]"
    by simp
  show ?thesis using 1 2 o1 o2 o3 by blast
qed

subsection \<open>C5: termination and completion\<close>



subsection \<open>C6: cycle detection\<close>

text \<open>
  C6. For every job graph whose dependency edges all target registered jobs,
  \<^verbatim>\<open>HasCycles\<close> returns true if and only if the directed dependency graph has a cycle.
\<close>

theorem HasCycles_iff_cycle:
  assumes "deps_registered g"
  shows "HasCycles g \<longleftrightarrow> \<not> acyclic (dep_edges g)"
  using HasCycles_sound HasCycles_complete[OF assms] by blast

theorem HasCycles_iff_cycle_witness:
  "deps_registered (buildDependencyGraph
      [demo_job ''A'' ''echo'' [''C''], demo_job ''B'' ''echo'' [''A''], demo_job ''C'' ''echo'' [''B'']]) \<and>
   HasCycles (buildDependencyGraph
      [demo_job ''A'' ''echo'' [''C''], demo_job ''B'' ''echo'' [''A''], demo_job ''C'' ''echo'' [''B'']]) \<and>
   \<not> acyclic (dep_edges (buildDependencyGraph
      [demo_job ''A'' ''echo'' [''C''], demo_job ''B'' ''echo'' [''A''], demo_job ''C'' ''echo'' [''B'']])) \<and>
   deps_registered (buildDependencyGraph
      [demo_job ''A'' ''echo'' [], demo_job ''B'' ''echo'' [''A''], demo_job ''C'' ''echo'' [''A'']]) \<and>
   \<not> HasCycles (buildDependencyGraph
      [demo_job ''A'' ''echo'' [], demo_job ''B'' ''echo'' [''A''], demo_job ''C'' ''echo'' [''A'']]) \<and>
   acyclic (dep_edges (buildDependencyGraph
      [demo_job ''A'' ''echo'' [], demo_job ''B'' ''echo'' [''A''], demo_job ''C'' ''echo'' [''A'']]))"
proof -
  let ?cyc = "buildDependencyGraph
      [demo_job ''A'' ''echo'' [''C''], demo_job ''B'' ''echo'' [''A''], demo_job ''C'' ''echo'' [''B'']]"
  let ?dag = "buildDependencyGraph
      [demo_job ''A'' ''echo'' [], demo_job ''B'' ''echo'' [''A''], demo_job ''C'' ''echo'' [''A'']]"
  have r1: "deps_registered ?cyc" by code_simp
  have r2: "deps_registered ?dag" by code_simp
  have h1: "HasCycles ?cyc" by code_simp
  have h2: "\<not> HasCycles ?dag" by code_simp
  show ?thesis
    using r1 r2 h1 h2 HasCycles_iff_cycle[OF r1] HasCycles_iff_cycle[OF r2] by blast
qed

subsection \<open>C7: rollback after a failed stage\<close>

text \<open>
  C7. With \<^verbatim>\<open>AutoRollback\<close> set and a rollback section in the plan. When the stages
  before a forward stage succeed and that stage fails, \<^verbatim>\<open>ExecutePlan\<close> returns, with
  an error that names the stage and carries its error; the result is failed and
  holds the stage results up to the failed stage, the earlier ones successful; and
  the events of the run end with those of the rollback, which are the opening line,
  then for every rollback stage in order the events of \<^verbatim>\<open>ExecuteGraph\<close> on a fresh
  graph and a fresh stage result (followed by the line reporting the stage's failure
  if it failed), then the closing line. Every rollback stage is run, whatever the
  outcome of the ones before it. Conversely, whenever \<^verbatim>\<open>ExecutePlan\<close> returns an
  error, a forward stage failed, the error is that stage's, and the result and the
  events are as described.
\<close>

theorem rollback_runs_every_stage:
  assumes "AutoRollback options" and "plan_Rollback plan = Some rollback"
  shows "(\<forall>before stage after msg.
            plan_Stages plan = before @ stage # after \<and>
            list_all (\<lambda>s. stage_outcome reg (run_ctx executionID plan) options s = Some None) before \<and>
            stage_outcome reg (run_ctx executionID plan) options stage = Some (Some msg) \<longrightarrow>
            (\<exists>result fwd.
               ExecutePlan reg executionID plan options =
                 Some (result, Some (stage_failed (stage_Name stage) msg),
                       fwd @ rollback_events reg (run_ctx executionID plan) False rollback) \<and>
               \<not> er_Success result \<and>
               map sr_Name (er_Stages result) = map stage_Name before @ [stage_Name stage] \<and>
               map sr_Success (er_Stages result) = replicate (length before) True @ [False])) \<and>
         (\<forall>result err evs.
            ExecutePlan reg executionID plan options = Some (result, Some err, evs) \<longrightarrow>
            (\<exists>before stage after msg fwd.
               plan_Stages plan = before @ stage # after \<and>
               stage_outcome reg (run_ctx executionID plan) options stage = Some (Some msg) \<and>
               err = stage_failed (stage_Name stage) msg \<and>
               \<not> er_Success result \<and>
               map sr_Name (er_Stages result) = map stage_Name before @ [stage_Name stage] \<and>
               map sr_Success (er_Stages result) = replicate (length before) True @ [False] \<and>
               evs = fwd @ rollback_events reg (run_ctx executionID plan) False rollback))"
proof -
  let ?ctx = "run_ctx executionID plan"
  have f: "failure_events reg ?ctx plan options = rollback_events reg ?ctx False rollback"
    using assms by (simp add: failure_events_def)
  have fwd: "\<exists>result fwd.
               ExecutePlan reg executionID plan options =
                 Some (result, Some (stage_failed (stage_Name stage) msg),
                       fwd @ rollback_events reg ?ctx False rollback) \<and>
               \<not> er_Success result \<and>
               map sr_Name (er_Stages result) = map stage_Name before @ [stage_Name stage] \<and>
               map sr_Success (er_Stages result) = replicate (length before) True @ [False]"
    if p: "plan_Stages plan = before @ stage # after"
      and b: "list_all (\<lambda>s. stage_outcome reg ?ctx options s = Some None) before"
      and s: "stage_outcome reg ?ctx options stage = Some (Some msg)"
    for before stage after msg
    using stage_loop_forward[OF b s, of plan after "initial_result executionID plan" "[]"]
    unfolding ExecutePlan_eq p f by (simp add: initial_result_def)
  have cnv: "\<exists>before stage after msg fwd.
               plan_Stages plan = before @ stage # after \<and>
               stage_outcome reg ?ctx options stage = Some (Some msg) \<and>
               err = stage_failed (stage_Name stage) msg \<and>
               \<not> er_Success result \<and>
               map sr_Name (er_Stages result) = map stage_Name before @ [stage_Name stage] \<and>
               map sr_Success (er_Stages result) = replicate (length before) True @ [False] \<and>
               evs = fwd @ rollback_events reg ?ctx False rollback"
    if r: "ExecutePlan reg executionID plan options = Some (result, Some err, evs)"
    for result err evs
  proof -
    from stage_loop_failed[OF r[unfolded ExecutePlan_eq]]
    obtain before stage after msg new evs1 fwd where
      h: "plan_Stages plan = before @ stage # after"
         "executeStage reg ?ctx stage (new_StageResult (stage_Name stage)) options =
            Some (Some msg, append_jobs (new_StageResult (stage_Name stage)) new, evs1)"
         "err = stage_failed (stage_Name stage) msg"
         "\<not> er_Success result"
         "map sr_Name (er_Stages result) = map stage_Name before @ [stage_Name stage]"
         "map sr_Success (er_Stages result) = replicate (length before) True @ [False]"
         "evs = fwd @ rollback_events reg ?ctx False rollback"
      unfolding f by (simp add: initial_result_def) blast
    have "stage_outcome reg ?ctx options stage = Some (Some msg)"
      unfolding stage_outcome_def h(2) by simp
    then show ?thesis using h by blast
  qed
  show ?thesis using fwd cnv by blast
qed


theorem rollback_runs_every_stage_witness:
  "AutoRollback real_run \<and> plan_Rollback plan_failing = Some demo_rollback \<and>
   plan_Stages plan_failing =
     [demo_stage ''build'' False [demo_job ''A'' ''echo'' []]] @
     demo_stage ''deploy'' False
       [demo_job ''A'' ''echo'' [], demo_job ''B'' ''fail'' [''A''], demo_job ''C'' ''echo'' [''A'']] #
     [demo_stage ''verify'' False [demo_job ''A'' ''echo'' []]] \<and>
   list_all (\<lambda>s. stage_outcome demo_registry (run_ctx ''run-1'' plan_failing) real_run s = Some None)
     [demo_stage ''build'' False [demo_job ''A'' ''echo'' []]] \<and>
   stage_outcome demo_registry (run_ctx ''run-1'' plan_failing) real_run
     (demo_stage ''deploy'' False
       [demo_job ''A'' ''echo'' [], demo_job ''B'' ''fail'' [''A''], demo_job ''C'' ''echo'' [''A'']])
     = Some (Some ''job B failed: Failed to execute job: boom'') \<and>
   rollback_events demo_registry (run_ctx ''run-1'' plan_failing) False demo_rollback
     = demo_rollback_events \<and>
   (\<exists>result fwd.
      ExecutePlan demo_registry ''run-1'' plan_failing real_run =
        Some (result, Some (Errorf ''Stage deploy failed: job B failed: Failed to execute job: boom''),
              fwd @ demo_rollback_events) \<and>
      \<not> er_Success result \<and>
      map sr_Name (er_Stages result) = [''build'', ''deploy''] \<and>
      map sr_Success (er_Stages result) = [True, False]) \<and>
   ExecutePlan demo_registry ''run-1'' plan_failing real_run =
     Some (failing_result,
           Some (Errorf ''Stage deploy failed: job B failed: Failed to execute job: boom''),
           failing_forward_events @ demo_rollback_events) \<and>
   (\<exists>before stage after msg fwd.
      plan_Stages plan_failing = before @ stage # after \<and>
      stage_outcome demo_registry (run_ctx ''run-1'' plan_failing) real_run stage = Some (Some msg) \<and>
      Errorf ''Stage deploy failed: job B failed: Failed to execute job: boom''
        = stage_failed (stage_Name stage) msg \<and>
      \<not> er_Success failing_result \<and>
      map sr_Name (er_Stages failing_result) = map stage_Name before @ [stage_Name stage] \<and>
      map sr_Success (er_Stages failing_result) = replicate (length before) True @ [False] \<and>
      failing_forward_events @ demo_rollback_events =
        fwd @ rollback_events demo_registry (run_ctx ''run-1'' plan_failing) False demo_rollback) \<and>
   plan_Rollback plan_cyclic =
     Some \<lparr>rollback_Stages = [demo_stage ''undo-build'' False [demo_job ''Y'' ''echo'' []]]\<rparr> \<and>
   plan_Stages plan_cyclic = [] @ demo_stage ''deploy'' False [demo_job ''A'' ''echo'' [''A'']] # [] \<and>
   stage_outcome demo_registry (run_ctx ''run-1'' plan_cyclic) real_run
     (demo_stage ''deploy'' False [demo_job ''A'' ''echo'' [''A'']])
     = Some (Some ''dependency cycle detected in job graph'') \<and>
   (\<exists>result fwd.
      ExecutePlan demo_registry ''run-1'' plan_cyclic real_run =
        Some (result, Some (Errorf ''Stage deploy failed: dependency cycle detected in job graph''),
              fwd @ cyclic_rollback_events) \<and>
      \<not> er_Success result \<and>
      map sr_Name (er_Stages result) = [''deploy''] \<and>
      map sr_Success (er_Stages result) = [False])"
proof -
  let ?build = "demo_stage ''build'' False [demo_job ''A'' ''echo'' []]"
  let ?deploy = "demo_stage ''deploy'' False
       [demo_job ''A'' ''echo'' [], demo_job ''B'' ''fail'' [''A''], demo_job ''C'' ''echo'' [''A'']]"
  let ?verify = "demo_stage ''verify'' False [demo_job ''A'' ''echo'' []]"
  let ?ctx = "run_ctx ''run-1'' plan_failing"
  have a: "AutoRollback real_run" by (simp add: real_run_def)
  have r: "plan_Rollback plan_failing = Some demo_rollback" by (simp add: plan_failing_def)
  have p: "plan_Stages plan_failing = [?build] @ ?deploy # [?verify]"
    by (simp add: plan_failing_def)
  have b: "list_all (\<lambda>s. stage_outcome demo_registry ?ctx real_run s = Some None) [?build]"
    by code_simp
  have d: "stage_outcome demo_registry ?ctx real_run ?deploy
             = Some (Some ''job B failed: Failed to execute job: boom'')"
    by code_simp
  have ev: "rollback_events demo_registry ?ctx False demo_rollback = demo_rollback_events"
    by code_simp
  have run: "ExecutePlan demo_registry ''run-1'' plan_failing real_run =
     Some (failing_result,
           Some (Errorf ''Stage deploy failed: job B failed: Failed to execute job: boom''),
           failing_forward_events @ demo_rollback_events)"
    by code_simp
  have n: "stage_Name ?deploy = ''deploy''" "map stage_Name [?build] = [''build'']"
    by (simp_all add: demo_stage_def)
  have sf: "stage_failed ''deploy'' ''job B failed: Failed to execute job: boom''
              = Errorf ''Stage deploy failed: job B failed: Failed to execute job: boom''"
    by (simp add: stage_failed_def)
  note t = rollback_runs_every_stage[OF a r, where reg = demo_registry and executionID = "''run-1''"]
  from t have "\<exists>result fwd.
      ExecutePlan demo_registry ''run-1'' plan_failing real_run =
        Some (result, Some (stage_failed (stage_Name ?deploy) ''job B failed: Failed to execute job: boom''),
              fwd @ rollback_events demo_registry ?ctx False demo_rollback) \<and>
      \<not> er_Success result \<and>
      map sr_Name (er_Stages result) = map stage_Name [?build] @ [stage_Name ?deploy] \<and>
      map sr_Success (er_Stages result) = replicate (length [?build]) True @ [False]"
    using p b d by blast
  then have 1: "\<exists>result fwd.
      ExecutePlan demo_registry ''run-1'' plan_failing real_run =
        Some (result, Some (Errorf ''Stage deploy failed: job B failed: Failed to execute job: boom''),
              fwd @ demo_rollback_events) \<and>
      \<not> er_Success result \<and>
      map sr_Name (er_Stages result) = [''build'', ''deploy''] \<and>
      map sr_Success (er_Stages result) = [True, False]"
    unfolding n sf ev by simp
  from t run have 2: "\<exists>before stage after msg fwd.
      plan_Stages plan_failing = before @ stage # after \<and>
      stage_outcome demo_registry ?ctx real_run stage = Some (Some msg) \<and>
      Errorf ''Stage deploy failed: job B failed: Failed to execute job: boom''
        = stage_failed (stage_Name stage) msg \<and>
      \<not> er_Success failing_result \<and>
      map sr_Name (er_Stages failing_result) = map stage_Name before @ [stage_Name stage] \<and>
      map sr_Success (er_Stages failing_result) = replicate (length before) True @ [False] \<and>
      failing_forward_events @ demo_rollback_events =
        fwd @ rollback_events demo_registry ?ctx False demo_rollback"
    by blast
  let ?cyc = "demo_stage ''deploy'' False [demo_job ''A'' ''echo'' [''A'']]"
  let ?undo = "\<lparr>rollback_Stages = [demo_stage ''undo-build'' False [demo_job ''Y'' ''echo'' []]]\<rparr>"
  let ?cctx = "run_ctx ''run-1'' plan_cyclic"
  have cr: "plan_Rollback plan_cyclic = Some ?undo" by (simp add: plan_cyclic_def)
  have cp: "plan_Stages plan_cyclic = [] @ ?cyc # []" by (simp add: plan_cyclic_def)
  have cb: "list_all (\<lambda>s. stage_outcome demo_registry ?cctx real_run s = Some None) []" by simp
  have cd: "stage_outcome demo_registry ?cctx real_run ?cyc
              = Some (Some ''dependency cycle detected in job graph'')"
    by code_simp
  have cev: "rollback_events demo_registry ?cctx False ?undo = cyclic_rollback_events"
    by code_simp
  have cn: "stage_Name ?cyc = ''deploy''" by (simp add: demo_stage_def)
  have csf: "stage_failed ''deploy'' ''dependency cycle detected in job graph''
               = Errorf ''Stage deploy failed: dependency cycle detected in job graph''"
    by (simp add: stage_failed_def)
  note tc = rollback_runs_every_stage[OF a cr, where reg = demo_registry and executionID = "''run-1''"]
  have "\<exists>result fwd.
      ExecutePlan demo_registry ''run-1'' plan_cyclic real_run =
        Some (result, Some (stage_failed (stage_Name ?cyc) ''dependency cycle detected in job graph''),
              fwd @ rollback_events demo_registry ?cctx False ?undo) \<and>
      \<not> er_Success result \<and>
      map sr_Name (er_Stages result) = map stage_Name ([] :: Stage list) @ [stage_Name ?cyc] \<and>
      map sr_Success (er_Stages result) = replicate (length ([] :: Stage list)) True @ [False]"
    by (rule conjunct1[OF tc, rule_format,
          of "[]" ?cyc "[]" "''dependency cycle detected in job graph''"])
       (intro conjI cp cb cd)
  then have 3: "\<exists>result fwd.
      ExecutePlan demo_registry ''run-1'' plan_cyclic real_run =
        Some (result, Some (Errorf ''Stage deploy failed: dependency cycle detected in job graph''),
              fwd @ cyclic_rollback_events) \<and>
      \<not> er_Success result \<and>
      map sr_Name (er_Stages result) = [''deploy''] \<and>
      map sr_Success (er_Stages result) = [False]"
    unfolding cn csf cev by simp
  show ?thesis using a r p b d ev 1 run 2 cr cp cd 3 by blast
qed

subsection \<open>C8: stages that require approval\<close>

text \<open>
  C8 as stated: for a stage that requires approval, with approvals not skipped, the
  orchestrator waits for the approval gate, and a rejection or an error of the gate
  fails the run without executing a job of the stage.

  \<^verbatim>\<open>ExecutePlan\<close> has no approval gate: it prints that the stage requires approval
  and that it is approved ("For now, we'll just simulate approval"), and goes on. In
  the run of \<open>plan_echo\<close>, whatever a gate would answer, the job of the stage is
  executed and the run succeeds.
\<close>

theorem approval_gate_never_consulted:
  "stage_RequireApproval (demo_stage ''deploy'' True [demo_job ''A'' ''echo'' []]) \<and>
   \<not> SkipApproval real_run \<and>
   ExecutePlan demo_registry ''run-1'' plan_echo real_run = Some (echo_result, None, echo_events) \<and>
   \<not> approval_gate_claim (\<lambda>stage. (False, None)) plan_echo real_run
       (ExecutePlan demo_registry ''run-1'' plan_echo real_run)"
  by code_simp

text \<open>
  C8 as amended. For every stage with \<^verbatim>\<open>RequireApproval\<close> set, when
  \<^verbatim>\<open>SkipApproval\<close> is false, the orchestrator prints the two approval lines and then
  executes the stage like any other; no approval gate is consulted. The execution
  result, the error and the handler calls of a run do not depend on
  \<^verbatim>\<open>SkipApproval\<close>.
\<close>

theorem approval_is_only_printed:
  "outcome (ExecutePlan reg executionID plan (options\<lparr>SkipApproval := b\<rparr>)) =
     outcome (ExecutePlan reg executionID plan options) \<and>
   handler_calls (ExecutePlan reg executionID plan (options\<lparr>SkipApproval := b\<rparr>)) =
     handler_calls (ExecutePlan reg executionID plan options) \<and>
   (stage_RequireApproval stage \<and> \<not> SkipApproval options \<longrightarrow>
      (\<exists>stageErr sr evs1 more.
         executeStage reg ctx stage (new_StageResult (stage_Name stage)) options = Some (stageErr, sr, evs1) \<and>
         plan_events (stage_loop reg ctx plan options (stage # rest) result evs) =
           evs @
           [Printed (''Stage '' @ stage_Name stage @ '' requires approval. Waiting for approval...''),
            Printed (''Stage '' @ stage_Name stage @ '' approved.'')] @
           evs1 @ more))"
proof (intro conjI impI)
  show "outcome (ExecutePlan reg executionID plan (options\<lparr>SkipApproval := b\<rparr>)) =
     outcome (ExecutePlan reg executionID plan options)"
    unfolding ExecutePlan_eq by (rule stage_loop_outcome) simp
  show "handler_calls (ExecutePlan reg executionID plan (options\<lparr>SkipApproval := b\<rparr>)) =
     handler_calls (ExecutePlan reg executionID plan options)"
    unfolding ExecutePlan_eq by (rule stage_loop_calls) simp
next
  assume a: "stage_RequireApproval stage \<and> \<not> SkipApproval options"
  then have l: "approval_lines options stage =
           [Printed (''Stage '' @ stage_Name stage @ '' requires approval. Waiting for approval...''),
            Printed (''Stage '' @ stage_Name stage @ '' approved.'')]"
    by (simp add: approval_lines_def)
  from stage_loop_approval[of reg ctx stage options plan rest result evs]
  show "\<exists>stageErr sr evs1 more.
         executeStage reg ctx stage (new_StageResult (stage_Name stage)) options = Some (stageErr, sr, evs1) \<and>
         plan_events (stage_loop reg ctx plan options (stage # rest) result evs) =
           evs @
           [Printed (''Stage '' @ stage_Name stage @ '' requires approval. Waiting for approval...''),
            Printed (''Stage '' @ stage_Name stage @ '' approved.'')] @
           evs1 @ more"
    unfolding l by simp
qed

theorem approval_is_only_printed_witness:
  "outcome (ExecutePlan demo_registry ''run-1'' plan_echo (real_run\<lparr>SkipApproval := True\<rparr>)) =
     outcome (ExecutePlan demo_registry ''run-1'' plan_echo real_run) \<and>
   outcome (ExecutePlan demo_registry ''run-1'' plan_echo real_run) = Some (echo_result, None) \<and>
   handler_calls (ExecutePlan demo_registry ''run-1'' plan_echo (real_run\<lparr>SkipApproval := True\<rparr>)) =
     handler_calls (ExecutePlan demo_registry ''run-1'' plan_echo real_run) \<and>
   handler_calls (ExecutePlan demo_registry ''run-1'' plan_echo real_run) =
     [ValidateCalled ''echo'' demo_config, ExecuteCalled ''echo'' demo_config] \<and>
   plan_events (ExecutePlan demo_registry ''run-1'' plan_echo real_run) = echo_events \<and>
   stage_RequireApproval (demo_stage ''deploy'' True [demo_job ''A'' ''echo'' []]) \<and>
   \<not> SkipApproval real_run \<and>
   (\<exists>stageErr sr evs1 more.
      executeStage demo_registry (run_ctx ''run-1'' plan_echo)
          (demo_stage ''deploy'' True [demo_job ''A'' ''echo'' []])
          (new_StageResult (stage_Name (demo_stage ''deploy'' True [demo_job ''A'' ''echo'' []]))) real_run
        = Some (stageErr, sr, evs1) \<and>
      plan_events (stage_loop demo_registry (run_ctx ''run-1'' plan_echo) plan_echo real_run
          [demo_stage ''deploy'' True [demo_job ''A'' ''echo'' []]] (initial_result ''run-1'' plan_echo) []) =
        [] @
        [Printed (''Stage '' @ stage_Name (demo_stage ''deploy'' True [demo_job ''A'' ''echo'' []]) @
                  '' requires approval. Waiting for approval...''),
         Printed (''Stage '' @ stage_Name (demo_stage ''deploy'' True [demo_job ''A'' ''echo'' []]) @
                  '' approved.'')] @
        evs1 @ more)"
proof -
  note t = approval_is_only_printed[where reg = demo_registry and executionID = "''run-1''"
      and plan = plan_echo and options = real_run and b = True
      and stage = "demo_stage ''deploy'' True [demo_job ''A'' ''echo'' []]"
      and ctx = "run_ctx ''run-1'' plan_echo" and rest = "[]"
      and result = "initial_result ''run-1'' plan_echo" and evs = "[]"]
  have 1: "outcome (ExecutePlan demo_registry ''run-1'' plan_echo real_run) = Some (echo_result, None)"
    by code_simp
  have 2: "handler_calls (ExecutePlan demo_registry ''run-1'' plan_echo real_run) =
     [ValidateCalled ''echo'' demo_config, ExecuteCalled ''echo'' demo_config]"
    by code_simp
  have 3: "plan_events (ExecutePlan demo_registry ''run-1'' plan_echo real_run) = echo_events"
    by code_simp
  have 4: "stage_RequireApproval (demo_stage ''deploy'' True [demo_job ''A'' ''echo'' []])"
    by (simp add: demo_stage_def)
  have 5: "\<not> SkipApproval real_run" by (simp add: real_run_def)
  show ?thesis using t 1 2 3 4 5 by blast
qed

subsection \<open>C9: rollback of a dry run\<close>

text \<open>
  C9. When a run with \<^verbatim>\<open>DryRun\<close> set returns an error, with \<^verbatim>\<open>AutoRollback\<close> set
  and a rollback section in the plan, the rollback stages are executed in real mode:
  the events of the run are events without any handler call (the forward stages, in
  dry-run mode) followed by the events of the rollback with \<open>dryRun\<close> false, so the
  handler calls of the run are exactly those of the rollback in real mode. A rollback
  in dry-run mode would call no handler.
\<close>

theorem rollback_runs_in_real_mode:
  assumes "ExecutePlan reg executionID plan options = Some (result, Some err, evs)"
    and "DryRun options" and "AutoRollback options" and "plan_Rollback plan = Some rollback"
  shows "(\<exists>fwd. evs = fwd @ rollback_events reg (run_ctx executionID plan) False rollback \<and>
                filter is_handler_call fwd = []) \<and>
         filter is_handler_call evs =
           filter is_handler_call (rollback_events reg (run_ctx executionID plan) False rollback) \<and>
         filter is_handler_call (rollback_events reg (run_ctx executionID plan) True rollback) = []"
proof -
  have f: "failure_events reg (run_ctx executionID plan) plan options =
             rollback_events reg (run_ctx executionID plan) False rollback"
    using assms(3,4) by (simp add: failure_events_def)
  from stage_loop_failed[OF assms(1)[unfolded ExecutePlan_eq]] assms(2)
  obtain fwd where
    e: "evs = fwd @ rollback_events reg (run_ctx executionID plan) False rollback"
    and n: "filter is_handler_call fwd = []"
    unfolding f by auto
  have "filter is_handler_call evs =
          filter is_handler_call (rollback_events reg (run_ctx executionID plan) False rollback)"
    unfolding e using n by simp
  then show ?thesis using e n rollback_events_dry by blast
qed

theorem rollback_runs_in_real_mode_witness:
  "ExecutePlan demo_registry ''run-1'' plan_cyclic dry_run =
     Some (cyclic_result,
           Some (Errorf ''Stage deploy failed: dependency cycle detected in job graph''),
           cyclic_rollback_events) \<and>
   DryRun dry_run \<and> AutoRollback dry_run \<and>
   filter is_handler_call cyclic_rollback_events =
     [ValidateCalled ''echo'' demo_config, ExecuteCalled ''echo'' demo_config] \<and>
   filter is_handler_call cyclic_rollback_events =
     filter is_handler_call (rollback_events demo_registry (run_ctx ''run-1'' plan_cyclic) False
       \<lparr>rollback_Stages = [demo_stage ''undo-build'' False [demo_job ''Y'' ''echo'' []]]\<rparr>)"
proof -
  have run: "ExecutePlan demo_registry ''run-1'' plan_cyclic dry_run =
     Some (cyclic_result,
           Some (Errorf ''Stage deploy failed: dependency cycle detected in job graph''),
           cyclic_rollback_events)"
    by code_simp
  have d: "DryRun dry_run" and a: "AutoRollback dry_run" by (simp_all add: dry_run_def)
  have r: "plan_Rollback plan_cyclic =
             Some \<lparr>rollback_Stages = [demo_stage ''undo-build'' False [demo_job ''Y'' ''echo'' []]]\<rparr>"
    by (simp add: plan_cyclic_def)
  have c: "filter is_handler_call cyclic_rollback_events =
     [ValidateCalled ''echo'' demo_config, ExecuteCalled ''echo'' demo_config]"
    by (simp add: cyclic_rollback_events_def)
  show ?thesis
    using run d a c rollback_runs_in_real_mode[OF run d a r] by blast
qed

subsection \<open>C10: the execution result after a rollback\<close>

text \<open>
  C10. The rollback never changes the execution result: the result and the error that
  \<^verbatim>\<open>ExecutePlan\<close> returns are those of the same run of the plan without its rollback
  section, and those of the same run without \<^verbatim>\<open>AutoRollback\<close>. \<^verbatim>\<open>ExecutePlan\<close>
  always returns; the counts of completed and failed jobs are the numbers of
  successful and failed job results in the recorded stages, and there are no more
  recorded stages than the plan has forward stages.
\<close>

theorem rollback_leaves_result_unchanged:
  "outcome (ExecutePlan reg executionID plan options) =
     outcome (ExecutePlan reg executionID (plan\<lparr>plan_Rollback := None\<rparr>) options) \<and>
   outcome (ExecutePlan reg executionID plan options) =
     outcome (ExecutePlan reg executionID plan (options\<lparr>AutoRollback := False\<rparr>)) \<and>
   (case ExecutePlan reg executionID plan options of
      None \<Rightarrow> False
    | Some (result, err, evs) \<Rightarrow>
        er_CompletedJobs result = length (filter jr_Success (concat (map sr_Jobs (er_Stages result)))) \<and>
        er_FailedJobs result =
          length (filter (\<lambda>job. \<not> jr_Success job) (concat (map sr_Jobs (er_Stages result)))) \<and>
        length (er_Stages result) \<le> length (plan_Stages plan))"
proof (intro conjI)
  show "outcome (ExecutePlan reg executionID plan options) =
     outcome (ExecutePlan reg executionID (plan\<lparr>plan_Rollback := None\<rparr>) options)"
    unfolding ExecutePlan_eq by (simp add: stage_loop_outcome[of options options, symmetric]) 
  show "outcome (ExecutePlan reg executionID plan options) =
     outcome (ExecutePlan reg executionID plan (options\<lparr>AutoRollback := False\<rparr>))"
    unfolding ExecutePlan_eq
    by (rule stage_loop_outcome[symmetric]) simp
  from stage_loop_shape[of reg "run_ctx executionID plan" plan options "plan_Stages plan"
      "initial_result executionID plan" "[]"]
  obtain res err more where
    r: "stage_loop reg (run_ctx executionID plan) plan options (plan_Stages plan)
          (initial_result executionID plan) [] = Some (res, err, [] @ more)"
    and l: "length (er_Stages res) \<le> length (er_Stages (initial_result executionID plan)) +
              length (plan_Stages plan)"
    by blast
  from stage_loop_counts[OF r] l
  show "case ExecutePlan reg executionID plan options of
      None \<Rightarrow> False
    | Some (result, err, evs) \<Rightarrow>
        er_CompletedJobs result = length (filter jr_Success (concat (map sr_Jobs (er_Stages result)))) \<and>
        er_FailedJobs result =
          length (filter (\<lambda>job. \<not> jr_Success job) (concat (map sr_Jobs (er_Stages result)))) \<and>
        length (er_Stages result) \<le> length (plan_Stages plan)"
    unfolding ExecutePlan_eq r by (simp add: initial_result_def)
qed

theorem rollback_leaves_result_unchanged_witness:
  "outcome (ExecutePlan demo_registry ''run-1'' plan_failing real_run) =
     outcome (ExecutePlan demo_registry ''run-1'' (plan_failing\<lparr>plan_Rollback := None\<rparr>) real_run) \<and>
   outcome (ExecutePlan demo_registry ''run-1'' plan_failing real_run) =
     outcome (ExecutePlan demo_registry ''run-1'' plan_failing (real_run\<lparr>AutoRollback := False\<rparr>)) \<and>
   outcome (ExecutePlan demo_registry ''run-1'' plan_failing real_run) =
     Some (failing_result,
           Some (Errorf ''Stage deploy failed: job B failed: Failed to execute job: boom'')) \<and>
   er_CompletedJobs failing_result = 2 \<and> er_FailedJobs failing_result = 1 \<and>
   map sr_Name (er_Stages failing_result) = [''build'', ''deploy'']"
proof -
  note t = rollback_leaves_result_unchanged[where reg = demo_registry and executionID = "''run-1''"
      and plan = plan_failing and options = real_run]
  have 1: "outcome (ExecutePlan demo_registry ''run-1'' plan_failing real_run) =
     Some (failing_result,
           Some (Errorf ''Stage deploy failed: job B failed: Failed to execute job: boom''))"
    by code_simp
  have 2: "er_CompletedJobs failing_result = 2" "er_FailedJobs failing_result = 1"
    "map sr_Name (er_Stages failing_result) = [''build'', ''deploy'']"
    by (simp_all add: failing_result_def)
  show ?thesis using t 1 2 by blast
qed


end
